theory Spec2Isabelle
  imports Complex_Main
begin

section \<open>The starfield background of SpaceBackground.js\<close>

text \<open>
  The theory embeds the three procedural routines of \<^verbatim>\<open>SpaceBackground.js\<close>: star
  generation (the \<^verbatim>\<open>useMemo\<close> of \<^verbatim>\<open>RealisticStarfield\<close>), the twinkle
  animation (its \<^verbatim>\<open>useFrame\<close> callback) and the nebula raster of \<^verbatim>\<open>CosmicDust\<close>.

  JavaScript numbers are modelled as mathematical reals: a decimal literal is the
  rational it denotes, the rounding of the arithmetic on IEEE doubles is left out, and
  so are the infinities. The one operation of the modelled code that can produce NaN
  from finite arguments, \<^verbatim>\<open>Math.pow\<close> with a negative base, returns an option. The
  cells of a \<^verbatim>\<open>Float32Array\<close> are modelled as they are: a cell holds a binary32
  number, and a number stored into it is rounded to the nearest one.

  \<^verbatim>\<open>Math.random()\<close> is modelled by the sequence of values it is going to return, a
  function \<open>g\<close> from the number of the call to the value, together with a counter \<open>k\<close> of
  the calls made so far. A routine that calls \<^verbatim>\<open>Math.random()\<close> reads \<open>g k\<close> and goes
  on with \<open>k + 1\<close>.
\<close>

type_synonym rng = "nat \<Rightarrow> real"

definition valid_rng :: "rng \<Rightarrow> bool" where
  \<comment> \<open>\<^verbatim>\<open>Math.random()\<close> returns a number in \<open>[0, 1)\<close>.\<close>
  "valid_rng g \<longleftrightarrow> (\<forall>n. 0 \<le> g n \<and> g n < 1)"

definition zero_rng :: rng where
  "zero_rng = (\<lambda>n. 0)"

definition half_rng :: rng where
  "half_rng = (\<lambda>n. 1 / 2)"

subsection \<open>The cells of a Float32Array\<close>

text \<open>
  Rounding to the nearest integer, a tie to the even one.
\<close>

definition round_half_even :: "real \<Rightarrow> int" where
  "round_half_even x =
     (let f = \<lfloor>x\<rfloor>
      in if x - of_int f < 1 / 2 then f
         else if 1 / 2 < x - of_int f then f + 1
         else if even f then f else f + 1)"

text \<open>
  \<^verbatim>\<open>Math.fround\<close>, the conversion of a store into a \<^verbatim>\<open>Float32Array\<close>: the nearest
  number with a significand of 24 bits, a tie to the even significand. The exponent
  of the last bit is that of the binade of \<open>x\<close> minus 23, and at least \<open>- 149\<close> (the
  subnormal numbers). Numbers of magnitude \<open>2 ^ 128\<close> and more, which the conversion
  takes to an infinity, are rounded like the others.
\<close>

definition fround :: "real \<Rightarrow> real" where
  "fround x =
     (if x = 0 then 0
      else let e = max (- 126) \<lfloor>log 2 \<bar>x\<bar>\<rfloor>;
               ulp = 2 powi (e - 23)
           in of_int (round_half_even (x / ulp)) * ulp)"

typedef float32 = "range fround"
  morphisms value_of Abs_float32
  by blast

definition Math_fround :: "real \<Rightarrow> float32" where
  "Math_fround x = Abs_float32 (fround x)"

subsection \<open>The stellar classification table\<close>

record stellar_type =
  color_r :: real
  color_g :: real
  color_b :: real
  weight :: real
  type_size :: real

definition mk_type :: "real \<Rightarrow> real \<Rightarrow> real \<Rightarrow> real \<Rightarrow> real \<Rightarrow> stellar_type" where
  "mk_type r g b w s = \<lparr>color_r = r, color_g = g, color_b = b, weight = w, type_size = s\<rparr>"

definition stellarTypes :: "stellar_type list" where
  "stellarTypes =
    [mk_type (95/100) (8/10) (65/100) (75/100) (3/10),
     mk_type 1 (9/10) (7/10) (12/100) (6/10),
     mk_type 1 1 (9/10) (8/100) (8/10),
     mk_type 1 (98/100) (85/100) (3/100) (12/10),
     mk_type (95/100) (98/100) 1 (15/1000) (18/10),
     mk_type (9/10) (95/100) 1 (3/1000) (25/10),
     mk_type (85/100) (9/10) 1 (1/1000) 3,
     mk_type 1 (6/10) (4/10) (1/1000) 4]"

text \<open>
  The selection loop of lines 61 to 71: \<^verbatim>\<open>selectedType\<close> starts as the first entry,
  \<^verbatim>\<open>cumulative\<close> as 0, and the first entry whose cumulative weight reaches \<^verbatim>\<open>rand\<close>
  is taken (\<^verbatim>\<open>break\<close>). When no entry does, the initial value stays.
\<close>

fun select_loop :: "real \<Rightarrow> real \<Rightarrow> stellar_type list \<Rightarrow> stellar_type \<Rightarrow> stellar_type" where
  "select_loop rand cumulative [] selectedType = selectedType"
| "select_loop rand cumulative (t # ts) selectedType =
     (let cumulative = cumulative + weight t
      in if rand \<le> cumulative then t else select_loop rand cumulative ts selectedType)"

definition select_type :: "real \<Rightarrow> stellar_type" where
  "select_type rand = select_loop rand 0 stellarTypes (stellarTypes ! 0)"

subsection \<open>Star generation\<close>

text \<open>
  The four \<^verbatim>\<open>Float32Array\<close>s that the \<^verbatim>\<open>useMemo\<close> callback allocates, fills and
  returns. A typed array has a fixed length and a write beyond it is ignored, which is
  what \<open>xs[i := v]\<close> does. A new array holds zeros.
\<close>

record buffers =
  positions :: "float32 list"
  colors :: "float32 list"
  sizes :: "float32 list"
  magnitudes :: "float32 list"

definition new_buffers :: "nat \<Rightarrow> buffers" where
  "new_buffers count =
     \<lparr>positions = replicate (count * 3) (Math_fround 0),
      colors = replicate (count * 3) (Math_fround 0),
      sizes = replicate count (Math_fround 0),
      magnitudes = replicate count (Math_fround 0)\<rparr>"

text \<open>
  Lines 30 to 34: whether the attempt that starts at call \<open>k\<close> of \<^verbatim>\<open>Math.random()\<close> is
  skipped. The third call is made only when \<^verbatim>\<open>shouldPlace\<close> is false (\<^verbatim>\<open>&&\<close>
  evaluates its right operand only then).
\<close>

definition shouldPlace :: "rng \<Rightarrow> nat \<Rightarrow> bool" where
  "shouldPlace g k =
     (let galacticLatitude = (g k - 1 / 2) * pi;
          galacticDensity = exp (- \<bar>galacticLatitude\<bar> * 3)
      in g (k + 1) < galacticDensity * (3 / 10) + 1 / 10)"

definition skipped :: "rng \<Rightarrow> nat \<Rightarrow> bool" where
  "skipped g k \<longleftrightarrow> \<not> shouldPlace g k \<and> g (k + 2) > 3 / 10"

text \<open>Lines 41 to 51: the radius of star \<open>i\<close>, from the value \<open>r\<close> of one call.\<close>

definition star_radius :: "nat \<Rightarrow> nat \<Rightarrow> real \<Rightarrow> real" where
  "star_radius count i r =
     (if real i < real count * (1 / 10) then r * 100 + 50
      else if real i < real count * (3 / 10) then r * 300 + 150
      else r * 800 + 400)"

text \<open>Lines 74 to 82: the size from the magnitude and one further call.\<close>

definition finalSize :: "stellar_type \<Rightarrow> real \<Rightarrow> real \<Rightarrow> real" where
  "finalSize selectedType magnitude r =
     (if magnitude < 85 / 100 then type_size selectedType * (1 / 10 + r * (3 / 10))
      else if magnitude < 97 / 100 then type_size selectedType * (4 / 10 + r * (6 / 10))
      else type_size selectedType * (1 + r * (15 / 10)))"

text \<open>
  Lines 40 to 91: the body of the loop after the skip test, for star \<open>i\<close>, with the
  seven calls of \<^verbatim>\<open>Math.random()\<close> numbered from \<open>k\<close>. Every assignment to a cell
  of one of the four arrays rounds to binary32.
\<close>

definition place_star :: "rng \<Rightarrow> nat \<Rightarrow> nat \<Rightarrow> nat \<Rightarrow> buffers \<Rightarrow> buffers" where
  "place_star g count i k b =
     (let radius = star_radius count i (g k);
          theta = g (k + 1) * pi * 2;
          phi = arccos (g (k + 2) * 2 - 1);
          positions1 = (positions b)
            [i * 3 := Math_fround (radius * sin phi * cos theta),
             i * 3 + 1 := Math_fround (radius * sin phi * sin theta),
             i * 3 + 2 := Math_fround (radius * cos phi)];
          rand = g (k + 3);
          selectedType = select_type rand;
          magnitude = g (k + 4);
          size1 = finalSize selectedType magnitude (g (k + 5));
          colorVariation = 1 + (g (k + 6) - 1 / 2) * (1 / 10);
          colors1 = (colors b)
            [i * 3 := Math_fround (min 1 (color_r selectedType * colorVariation)),
             i * 3 + 1 := Math_fround (min 1 (color_g selectedType * colorVariation)),
             i * 3 + 2 := Math_fround (min 1 (color_b selectedType * colorVariation))]
      in \<lparr>positions = positions1, colors = colors1,
          sizes = (sizes b)[i := Math_fround size1],
          magnitudes = (magnitudes b)[i := Math_fround magnitude]\<rparr>)"

text \<open>
  The \<^verbatim>\<open>for\<close> loop of lines 28 to 92. A skipped attempt runs \<^verbatim>\<open>i--\<close> and
  \<^verbatim>\<open>continue\<close>, and the loop's own \<^verbatim>\<open>i++\<close> then restores \<open>i\<close>: the next attempt
  is for the same star, three calls of \<^verbatim>\<open>Math.random()\<close> later. Nothing bounds the
  number of attempts, so the loop is a partial function: \<open>None\<close> is a run that never
  leaves the loop. The result carries the number of calls made.
\<close>

partial_function (option) star_loop ::
  "rng \<Rightarrow> nat \<Rightarrow> nat \<Rightarrow> nat \<Rightarrow> buffers \<Rightarrow> (buffers \<times> nat) option" where
  "star_loop g count i k b =
     (if i < count then
        if skipped g k then star_loop g count i (k + 3) b
        else
          let k1 = (if shouldPlace g k then k + 2 else k + 3)
          in star_loop g count (i + 1) (k1 + 7) (place_star g count i k1 b)
      else Some (b, k))"

definition generateStars :: "rng \<Rightarrow> nat \<Rightarrow> nat \<Rightarrow> (buffers \<times> nat) option" where
  "generateStars g k count = star_loop g count 0 k (new_buffers count)"

text \<open>
  A run of retries that never ends is the only way for the loop not to return. A random
  sequence is \<open>fair\<close> when, from every call on, some attempt of the run of retries
  (they start three calls apart) is not skipped.
\<close>

definition fair :: "rng \<Rightarrow> bool" where
  "fair g \<longleftrightarrow> (\<forall>k. \<exists>n. \<not> skipped g (k + 3 * n))"

text \<open>The vocabulary of the properties of the generated buffers.\<close>

definition buffers_ok :: "nat \<Rightarrow> buffers \<Rightarrow> bool" where
  "buffers_ok count b \<longleftrightarrow>
     length (positions b) = count * 3 \<and> length (colors b) = count * 3 \<and>
     length (sizes b) = count \<and> length (magnitudes b) = count"

definition position_norm :: "buffers \<Rightarrow> nat \<Rightarrow> real" where
  "position_norm b i =
     sqrt ((value_of (positions b ! (i * 3)))\<^sup>2 + (value_of (positions b ! (i * 3 + 1)))\<^sup>2 +
           (value_of (positions b ! (i * 3 + 2)))\<^sup>2)"

definition tier_min :: "nat \<Rightarrow> nat \<Rightarrow> real" where
  "tier_min count i =
     (if real i < real count * (1 / 10) then 50
      else if real i < real count * (3 / 10) then 150 else 400)"

definition tier_max :: "nat \<Rightarrow> nat \<Rightarrow> real" where
  "tier_max count i =
     (if real i < real count * (1 / 10) then 150
      else if real i < real count * (3 / 10) then 450 else 1200)"

text \<open>
  The three coordinates of a position are rounded one by one, so the norm of a stored
  position is the radius up to a relative error of \<open>2 ^ - 23\<close>.
\<close>

definition star_ok :: "nat \<Rightarrow> buffers \<Rightarrow> nat \<Rightarrow> bool" where
  "star_ok count b i \<longleftrightarrow>
     (\<forall>c<3. 0 \<le> value_of (colors b ! (i * 3 + c)) \<and> value_of (colors b ! (i * 3 + c)) \<le> 1) \<and>
     tier_min count i * (1 - 1 / 2 ^ 23) \<le> position_norm b i \<and>
     position_norm b i \<le> tier_max count i * (1 + 1 / 2 ^ 23)"

text \<open>
  The eight cells of star \<open>i\<close>. The star has been written when they hold what the
  loop body stores for star \<open>i\<close>, from some call \<open>k\<close> on, into new arrays.
\<close>

definition star_cells :: "buffers \<Rightarrow> nat \<Rightarrow> float32 list" where
  "star_cells b i =
     [positions b ! (i * 3), positions b ! (i * 3 + 1), positions b ! (i * 3 + 2),
      colors b ! (i * 3), colors b ! (i * 3 + 1), colors b ! (i * 3 + 2),
      sizes b ! i, magnitudes b ! i]"

definition written :: "rng \<Rightarrow> nat \<Rightarrow> buffers \<Rightarrow> nat \<Rightarrow> bool" where
  "written g count b i \<longleftrightarrow>
     (\<exists>k. star_cells b i = star_cells (place_star g count i k (new_buffers count)) i)"

subsection \<open>The twinkle animation\<close>

text \<open>
  Lines 107 and 108. \<open>r\<close> is the value of the call of \<^verbatim>\<open>Math.random()\<close> in the
  frequency multiplier, \<open>s\<close> the value read from \<^verbatim>\<open>sizes[i]\<close>.
\<close>

definition twinkleIntensity :: "real \<Rightarrow> real" where
  "twinkleIntensity s = max 0 ((s - 1 / 2) * (3 / 10))"

definition scintillation :: "real \<Rightarrow> real \<Rightarrow> nat \<Rightarrow> real \<Rightarrow> real" where
  "scintillation time r i s =
     sin (time * (1 + r * 3) + real i * (123 / 1000)) * twinkleIntensity s + 1"

text \<open>
  The callback reads the closure's arrays \<^verbatim>\<open>sizes\<close> and \<^verbatim>\<open>colors\<close> and writes the
  arrays of the geometry's \<^verbatim>\<open>size\<close> and \<^verbatim>\<open>color\<close> attributes. Whether these are the
  same objects is decided outside the file, by the \<^verbatim>\<open>Points\<close> element that receives the
  arrays as props (lines 125 to 136). Arrays therefore live in a store, by address, and
  the component holds addresses.
\<close>

type_synonym addr = nat

type_synonym store = "addr \<Rightarrow> float32 list"

record geometry =
  position_array :: addr
  color_array :: addr
  size_array :: addr

record starfield =
  positions_ref :: addr
  colors_ref :: addr
  sizes_ref :: addr
  magnitudes_ref :: addr
  ref_current :: "geometry option"

text \<open>
  Lines 106 to 117: one iteration of the loop, for star \<open>i\<close>, at call \<open>k\<close>. The
  arrays of the attributes are \<^verbatim>\<open>Float32Array\<close>s, and each of the four assignments
  rounds to binary32.
\<close>

definition twinkle_star ::
  "rng \<Rightarrow> real \<Rightarrow> starfield \<Rightarrow> geometry \<Rightarrow> nat \<Rightarrow> store \<times> nat \<Rightarrow> store \<times> nat" where
  "twinkle_star g time sf geo i = (\<lambda>(h, k).
     let scint = scintillation time (g k) i (value_of (h (sizes_ref sf) ! i));
         h1 = h(size_array geo :=
                (h (size_array geo))
                  [i := Math_fround (value_of (h (sizes_ref sf) ! i) * max (3 / 10) scint)]);
         colorShift = (scint - 1) * (5 / 100);
         h2 = h1(color_array geo :=
                (h1 (color_array geo))
                  [i * 3 :=
                     Math_fround
                       (min 1 (value_of (h1 (colors_ref sf) ! (i * 3)) * (1 + colorShift)))]);
         h3 = h2(color_array geo :=
                (h2 (color_array geo))
                  [i * 3 + 1 :=
                     Math_fround
                       (min 1 (value_of (h2 (colors_ref sf) ! (i * 3 + 1)) *
                          (1 - colorShift * (3 / 10))))]);
         h4 = h3(color_array geo :=
                (h3 (color_array geo))
                  [i * 3 + 2 :=
                     Math_fround
                       (min 1 (value_of (h3 (colors_ref sf) ! (i * 3 + 2)) *
                          (1 - colorShift * (6 / 10))))])
     in (h4, k + 1))"

text \<open>
  Lines 97 to 123: the callback at elapsed time \<open>time\<close>. Nothing happens while
  \<^verbatim>\<open>ref.current\<close> is not set. The \<^verbatim>\<open>needsUpdate\<close> flags are not modelled.
\<close>

definition useFrame ::
  "rng \<Rightarrow> nat \<Rightarrow> real \<Rightarrow> nat \<Rightarrow> starfield \<Rightarrow> store \<Rightarrow> store \<times> nat" where
  "useFrame g k time count sf h =
     (case ref_current sf of
        None \<Rightarrow> (h, k)
      | Some geo \<Rightarrow> fold (twinkle_star g time sf geo) [0..<count] (h, k))"

text \<open>A run of frames, at the elapsed times of the list.\<close>

fun run_frames ::
  "rng \<Rightarrow> nat \<Rightarrow> real list \<Rightarrow> nat \<Rightarrow> starfield \<Rightarrow> store \<Rightarrow> store \<times> nat" where
  "run_frames g k [] count sf h = (h, k)"
| "run_frames g k (time # ts) count sf h =
     (case useFrame g k time count sf h of (h1, k1) \<Rightarrow> run_frames g k1 ts count sf h1)"

text \<open>
  The component after its first render: the four arrays of \<^verbatim>\<open>useMemo\<close> are four
  distinct objects, and the \<^verbatim>\<open>Points\<close> element of lines 126 to 135 builds the geometry
  whose attributes wrap the arrays passed as \<^verbatim>\<open>positions\<close>, \<^verbatim>\<open>colors\<close> and
  \<^verbatim>\<open>sizes\<close>, without copying them.
\<close>

definition mount :: "buffers \<Rightarrow> starfield \<times> store" where
  "mount b =
     (\<lparr>positions_ref = 0, colors_ref = 1, sizes_ref = 2, magnitudes_ref = 3,
       ref_current = Some \<lparr>position_array = 0, color_array = 1, size_array = 2\<rparr>\<rparr>,
      (\<lambda>a. [])(0 := positions b, 1 := colors b, 2 := sizes b, 3 := magnitudes b))"

text \<open>
  What the theorems on frames need of the wiring: the attribute arrays written by the
  callback are two different arrays, neither is the positions or the magnitudes array,
  and the one is not the base array that the other is computed from. Both the wiring of
  \<open>mount\<close> and a geometry with arrays of its own satisfy it.
\<close>

definition attributes_ok :: "starfield \<Rightarrow> geometry \<Rightarrow> bool" where
  "attributes_ok sf geo \<longleftrightarrow>
     size_array geo \<noteq> color_array geo \<and>
     size_array geo \<notin> {positions_ref sf, colors_ref sf, magnitudes_ref sf} \<and>
     color_array geo \<notin> {positions_ref sf, sizes_ref sf, magnitudes_ref sf}"

text \<open>
  The arrays have the lengths that \<open>count\<close> gives them (the buffers are rebuilt
  whenever \<open>count\<close> changes, line 95), so every read of the callback is in range.
\<close>

definition store_ok :: "nat \<Rightarrow> starfield \<Rightarrow> geometry \<Rightarrow> store \<Rightarrow> bool" where
  "store_ok count sf geo h \<longleftrightarrow>
     length (h (sizes_ref sf)) = count \<and> length (h (size_array geo)) = count \<and>
     length (h (colors_ref sf)) = count * 3 \<and> length (h (color_array geo)) = count * 3"

definition colors_clamped :: "starfield \<Rightarrow> store \<Rightarrow> bool" where
  "colors_clamped sf h \<longleftrightarrow>
     (\<forall>j < length (h (colors_ref sf)). value_of (h (colors_ref sf) ! j) \<le> 1)"

subsection \<open>The nebula raster\<close>

text \<open>
  \<^verbatim>\<open>Math.pow\<close> with a positive exponent that is not an integer, its only use here
  (the exponent is 2.5): NaN, modelled by \<open>None\<close>, for a negative base.
\<close>

definition js_pow :: "real \<Rightarrow> real \<Rightarrow> real option" where
  "js_pow x y = (if x < 0 then None else Some (x powr y))"

text \<open>Lines 162 to 176: the noise of pixel \<open>(x, y)\<close> before the power curve.\<close>

definition nebula_noise :: "nat \<Rightarrow> nat \<Rightarrow> real" where
  "nebula_noise x y =
     (let nx = real x / 512;
          ny = real y / 512;
          noise = 0;
          noise = noise + sin (nx * 12 + ny * 8) * (1 / 2);
          noise = noise + sin (nx * 24 + ny * 16) * (1 / 4);
          noise = noise + sin (nx * 48 + ny * 32) * (1 / 8);
          noise = noise + sin (nx * 96 + ny * 64) * (1 / 16);
          turbulence = sin (nx * 80 + cos (ny * 60) * 2) * (3 / 10);
          noise = noise + turbulence
      in (noise + 1) * (1 / 2))"

text \<open>Lines 177 and 179: the value of \<^verbatim>\<open>alpha\<close>.\<close>

definition nebula_alpha :: "nat \<Rightarrow> nat \<Rightarrow> real option" where
  "nebula_alpha x y =
     (case js_pow (max 0 (nebula_noise x y - 4 / 10)) (5 / 2) of
        None \<Rightarrow> None
      | Some noise \<Rightarrow> Some (min 255 (noise * 80)))"

text \<open>
  The cells of \<^verbatim>\<open>imageData.data\<close>, a \<^verbatim>\<open>Uint8ClampedArray\<close>, hold bytes: a number
  stored there is clamped to 0 .. 255 and rounded to the nearest integer, a tie to the
  even one, and NaN is stored as 0.
\<close>

definition to_uint8_clamp :: "real option \<Rightarrow> nat" where
  "to_uint8_clamp v =
     (case v of
        None \<Rightarrow> 0
      | Some number \<Rightarrow>
          let clamped = min 255 (max 0 number);
              f = \<lfloor>clamped\<rfloor>
          in if real_of_int f + 1 / 2 < clamped then nat (f + 1)
             else if clamped < real_of_int f + 1 / 2 then nat f
             else if even f then nat f else nat (f + 1))"

text \<open>Lines 159 and 181 to 192: the four writes for pixel \<open>(x, y)\<close>.\<close>

definition put_pixel :: "string \<Rightarrow> nat \<Rightarrow> nat \<Rightarrow> nat list \<Rightarrow> nat list" where
  "put_pixel type y x data =
     (let i = (y * 512 + x) * 4;
          alpha = nebula_alpha x y;
          data = (if type = ''dark'' then data[i := 20, i + 1 := 15, i + 2 := 10]
                  else data[i := 180, i + 1 := 200, i + 2 := 255])
      in data[i + 3 := to_uint8_clamp alpha])"

text \<open>
  Lines 154 to 194: the raster. Like every routine here it runs with the random source
  at hand, and returns the number of calls made; it makes none.
\<close>

definition dustTexture :: "rng \<Rightarrow> nat \<Rightarrow> string \<Rightarrow> nat list \<times> nat" where
  "dustTexture g k type =
     (fold (\<lambda>y data. fold (\<lambda>x data. put_pixel type y x data) [0..<512] data) [0..<512]
        (replicate (512 * 512 * 4) 0), k)"

subsection \<open>Example inputs\<close>

text \<open>
  Random sequences: one returns 1/3 at every call; one returns 0 at the first call and
  0.5 afterwards; one returns 0.5 at the first three calls, so that the first attempt
  is skipped, and 0 afterwards; one places the first star at radius 50 in the
  direction \<open>(1, 1, 0)\<close>.
\<close>

definition third_rng :: rng where
  "third_rng = (\<lambda>n. 1 / 3)"

definition zero_then_half :: rng where
  "zero_then_half = (\<lambda>n. if n < 1 then 0 else 1 / 2)"

definition retry_rng :: rng where
  "retry_rng = (\<lambda>n. if n < 3 then 1 / 2 else 0)"

definition diagonal_rng :: rng where
  "diagonal_rng = (\<lambda>n. if n = 0 then 1 / 2 else if n = 3 then 1 / 8 else if n = 4 then 1 / 2 else 0)"

text \<open>
  Buffers of one star: those that the generation returns when every call of
  \<^verbatim>\<open>Math.random()\<close> returns 0, the same with a star of size 1.5 and of size 3, and
  those that the generation returns for \<open>diagonal_rng\<close>.
\<close>

definition example_buffers :: buffers where
  "example_buffers =
     \<lparr>positions = [Math_fround 0, Math_fround 0, Math_fround (- 50)],
      colors = [Math_fround (361 / 400), Math_fround (19 / 25), Math_fround (247 / 400)],
      sizes = [Math_fround (3 / 100)], magnitudes = [Math_fround 0]\<rparr>"

definition bright_buffers :: buffers where
  "bright_buffers = example_buffers\<lparr>sizes := [Math_fround (3 / 2)]\<rparr>"


definition diagonal_buffers :: buffers where
  "diagonal_buffers =
     example_buffers
       \<lparr>positions := [Math_fround (25 * sqrt 2), Math_fround (25 * sqrt 2), Math_fround 0]\<rparr>"

section \<open>Facts on binary32 rounding\<close>

lemma two_powi_pos: "0 < (2::real) powi n"
  by simp

lemma value_of_Math_fround: "value_of (Math_fround x) = fround x"
  by (simp add: Math_fround_def Abs_float32_inverse)

lemma round_half_even_error: "\<bar>of_int (round_half_even y) - y\<bar> \<le> 1 / 2"
  unfolding round_half_even_def Let_def by (auto; linarith)

lemma round_half_even_int: "round_half_even (of_int n) = n"
  by (simp add: round_half_even_def)

lemma round_half_even_le: "y \<le> of_int n \<Longrightarrow> round_half_even y \<le> n"
proof -
  assume a: "y \<le> of_int n"
  show ?thesis
  proof (cases "y = of_int n")
    case True then show ?thesis by (simp add: round_half_even_int)
  next
    case False
    with a have "y < of_int n" by simp
    then have "\<lfloor>y\<rfloor> < n" by (simp add: floor_less_iff)
    then show ?thesis unfolding round_half_even_def Let_def by auto
  qed
qed

lemma round_half_even_ge: "of_int n \<le> y \<Longrightarrow> n \<le> round_half_even y"
proof -
  assume "of_int n \<le> y"
  then have "n \<le> \<lfloor>y\<rfloor>" by (simp add: le_floor_iff)
  then show ?thesis unfolding round_half_even_def Let_def by auto
qed

lemma floor_log2:
  assumes "2 powi e \<le> x" and "x < 2 powi (e + 1)"
  shows "\<lfloor>log 2 x\<rfloor> = e"
proof -
  have "0 < (2::real) powi e" by (rule two_powi_pos)
  with assms(1) have pos: "0 < x" by linarith
  have p: "(2::real) powi n = 2 powr of_int n" for n
    by (simp add: powr_real_of_int')
  from assms have "2 powr of_int e \<le> x" "x < 2 powr of_int (e + 1)"
    unfolding p by blast+
  then have "of_int e \<le> log 2 x" "log 2 x < of_int (e + 1)"
    using pos by (simp_all add: le_log_iff log_less_iff)
  then show ?thesis by (simp add: floor_eq_iff)
qed


lemma fround_binade:
  assumes "2 powi e \<le> \<bar>x\<bar>" and "\<bar>x\<bar> < 2 powi (e + 1)" and "- 126 \<le> e"
  shows "fround x = of_int (round_half_even (x / 2 powi (e - 23))) * 2 powi (e - 23)"
proof -
  have "x \<noteq> 0"
  proof
    assume "x = 0"
    with assms(1) have "(2::real) powi e \<le> 0" by simp
    moreover have "0 < (2::real) powi e" by (rule two_powi_pos)
    ultimately show False by linarith
  qed
  moreover have "max (- 126) \<lfloor>log 2 \<bar>x\<bar>\<rfloor> = e"
    using floor_log2 [OF assms(1,2)] assms(3) by simp
  ultimately show ?thesis by (simp add: fround_def Let_def)
qed

lemma fround_subnormal:
  assumes "\<bar>x\<bar> < 2 powi (- 126)"
  shows "fround x = of_int (round_half_even (x / 2 powi (- 149))) * 2 powi (- 149)"
proof (cases "x = 0")
  case True
  then show ?thesis by (simp add: fround_def round_half_even_def)
next
  case False
  then have pos: "0 < \<bar>x\<bar>" by simp
  have p: "(2::real) powi n = 2 powr of_int n" for n
    by (simp add: powr_real_of_int')
  from assms have "\<bar>x\<bar> < 2 powr of_int (- 126)" unfolding p .
  then have "log 2 \<bar>x\<bar> < of_int (- 126)" using pos by (simp add: log_less_iff)
  then have "\<lfloor>log 2 \<bar>x\<bar>\<rfloor> < - 126" by (simp add: floor_less_iff)
  then have "max (- 126) \<lfloor>log 2 \<bar>x\<bar>\<rfloor> = - 126" by simp
  with False show ?thesis by (simp add: fround_def Let_def)
qed


lemma two_powi_split: "(2::real) powi (e + 1) = 2 powi (e - 23) * 2 ^ 24"
proof -
  have "(2::real) powi ((e - 23) + 24) = 2 powi (e - 23) * 2 powi 24"
    by (rule power_int_add) simp
  then show ?thesis by (simp add: add.commute)
qed

lemma two_powi_split': "(2::real) powi e = 2 powi (e - 23) * 2 ^ 23"
proof -
  have "(2::real) powi ((e - 23) + 23) = 2 powi (e - 23) * 2 powi 23"
    by (rule power_int_add) simp
  then show ?thesis by simp
qed

lemma fround_representable:
  assumes e: "- 126 \<le> e" and n: "\<bar>n\<bar> \<le> 2 ^ 24" and normal: "2 ^ 23 \<le> \<bar>n\<bar> \<or> e = - 126"
  shows "fround (of_int n * 2 powi (e - 23)) = of_int n * 2 powi (e - 23)"
proof -
  define u :: real where "u = 2 powi (e - 23)"
  have u: "0 < u" by (simp add: u_def)
  have abs: "\<bar>of_int n * u\<bar> = of_int \<bar>n\<bar> * u" using u by (simp add: abs_mult)
  consider (zero) "n = 0" | (top) "\<bar>n\<bar> = 2 ^ 24" | (mid) "2 ^ 23 \<le> \<bar>n\<bar>" "\<bar>n\<bar> < 2 ^ 24"
    | (sub) "n \<noteq> 0" "\<bar>n\<bar> < 2 ^ 23" "e = - 126"
    using n normal by linarith
  then have "fround (of_int n * u) = of_int n * u"
  proof cases
    case zero
    then show ?thesis by (simp add: fround_def)
  next
    case top
    have "\<bar>of_int n * u\<bar> = 2 powi (e + 1)"
      unfolding abs top by (simp add: two_powi_split u_def)
    moreover have "(2::real) powi (e + 1) < 2 powi (e + 1 + 1)"
      by (rule power_int_strict_increasing) simp_all
    ultimately have "2 powi (e + 1) \<le> \<bar>of_int n * u\<bar>"
      "\<bar>of_int n * u\<bar> < 2 powi (e + 1 + 1)"
      by simp_all
    from fround_binade [OF this] e
    have "fround (of_int n * u)
        = of_int (round_half_even (of_int n * u / 2 powi (e + 1 - 23))) * 2 powi (e + 1 - 23)"
      by simp
    moreover have "(2::real) powi (e + 1 - 23) = u * 2"
    proof -
      have "(2::real) powi ((e - 23) + 1) = 2 powi (e - 23) * 2 powi 1"
        by (rule power_int_add) simp
      moreover have "e + 1 - 23 = (e - 23) + 1" by simp
      ultimately show ?thesis by (simp add: u_def)
    qed
    moreover from top have "n = 16777216 \<or> n = - 16777216" by (simp add: abs_if split: if_splits)
    ultimately show ?thesis using u by (auto simp: round_half_even_def)
  next
    case mid
    have "of_int \<bar>n\<bar> * u < 2 ^ 24 * u"
      using mid(2) u by (intro mult_strict_right_mono) simp_all
    moreover have "2 ^ 23 * u \<le> of_int \<bar>n\<bar> * u"
      using mid(1) u by (intro mult_right_mono) simp_all
    ultimately have "2 powi e \<le> \<bar>of_int n * u\<bar>" "\<bar>of_int n * u\<bar> < 2 powi (e + 1)"
      unfolding abs by (simp_all add: two_powi_split two_powi_split' [of e] u_def mult.commute)
    from fround_binade [OF this e] show ?thesis
      using u by (simp add: u_def [symmetric] round_half_even_int)
  next
    case sub
    have "of_int \<bar>n\<bar> * u < 2 ^ 23 * u"
      using sub(2) u by (intro mult_strict_right_mono) simp_all
    then have "\<bar>of_int n * u\<bar> < 2 powi e"
      unfolding abs by (simp add: two_powi_split' [of e] u_def mult.commute)
    then have "\<bar>of_int n * u\<bar> < 2 powi (- 126)" using sub(3) by simp
    from fround_subnormal [OF this] show ?thesis
      using u sub(3) by (simp add: u_def round_half_even_int)
  qed
  then show ?thesis by (simp add: u_def)
qed


lemma fround_cases:
  fixes x :: real
  assumes "x \<noteq> 0"
  obtains (normal) e where "- 126 \<le> e" "2 powi e \<le> \<bar>x\<bar>" "\<bar>x\<bar> < 2 powi (e + 1)"
  | (subnormal) "\<bar>x\<bar> < 2 powi (- 126)"
proof -
  define l where "l = \<lfloor>log 2 \<bar>x\<bar>\<rfloor>"
  have pos: "0 < \<bar>x\<bar>" using assms by simp
  have p: "(2::real) powi n = 2 powr of_int n" for n
    by (simp add: powr_real_of_int')
  have "of_int l \<le> log 2 \<bar>x\<bar>" "log 2 \<bar>x\<bar> < of_int (l + 1)"
    unfolding l_def by linarith+
  then have b: "2 powi l \<le> \<bar>x\<bar>" "\<bar>x\<bar> < 2 powi (l + 1)"
    unfolding p using pos by (simp_all add: powr_le_iff less_powr_iff)
  show thesis
  proof (cases "- 126 \<le> l")
    case True
    with b show thesis by (rule normal [rotated])
  next
    case False
    then have "l + 1 \<le> - 126" by simp
    then have "(2::real) powi (l + 1) \<le> 2 powi (- 126)"
      by (intro power_int_increasing) simp_all
    with b(2) show thesis by (intro subnormal) linarith
  qed
qed

lemma fround_idem: "fround (fround x) = fround x"
proof (cases "x = 0")
  case True
  then show ?thesis by (simp add: fround_def)
next
  case False
  then show ?thesis
  proof (cases rule: fround_cases)
    case (normal e)
    define u :: real where "u = 2 powi (e - 23)"
    define n where "n = round_half_even (x / u)"
    have u: "0 < u" by (simp add: u_def)
    have fx: "fround x = of_int n * u"
      using fround_binade [OF normal(2,3,1)] by (simp add: n_def u_def)
    have lo: "2 ^ 23 \<le> \<bar>x\<bar> / u" and hi: "\<bar>x\<bar> / u < 2 ^ 24"
      using normal(2,3) u unfolding two_powi_split two_powi_split' [of e] u_def [symmetric]
      by (simp_all add: field_simps)
    have "2 ^ 23 \<le> \<bar>n\<bar> \<and> \<bar>n\<bar> \<le> 2 ^ 24"
    proof (cases "0 < x")
      case True
      with lo hi have "of_int (2 ^ 23) \<le> x / u" "x / u \<le> of_int (2 ^ 24)" by simp_all
      then have "2 ^ 23 \<le> n" "n \<le> 2 ^ 24"
        unfolding n_def by (simp_all only: round_half_even_ge round_half_even_le)
      then show ?thesis by simp
    next
      case neg: False
      with False lo hi u have "x / u \<le> of_int (- (2 ^ 23))" "of_int (- (2 ^ 24)) \<le> x / u"
        by (simp_all add: abs_if field_simps)
      then have "n \<le> - (2 ^ 23)" "- (2 ^ 24) \<le> n"
        unfolding n_def by (simp_all only: round_half_even_ge round_half_even_le)
      then show ?thesis by simp
    qed
    then show ?thesis
      unfolding fx u_def using fround_representable [OF normal(1), of n] by blast
  next
    case subnormal
    define u :: real where "u = 2 powi (- 126 - 23)"
    define n where "n = round_half_even (x / u)"
    have u: "0 < u" by (simp add: u_def)
    have fx: "fround x = of_int n * u"
      using fround_subnormal [OF subnormal] by (simp add: n_def u_def)
    have "\<bar>x\<bar> / u < 2 ^ 23"
      using subnormal u unfolding two_powi_split' [of "- 126"] u_def [symmetric]
      by (simp add: field_simps)
    then have "x / u \<le> of_int (2 ^ 23)" "of_int (- (2 ^ 23)) \<le> x / u"
      using u by (simp_all add: abs_if field_simps split: if_splits)
    then have "n \<le> 2 ^ 23" "- (2 ^ 23) \<le> n"
      unfolding n_def by (simp_all only: round_half_even_ge round_half_even_le)
    then have "\<bar>n\<bar> \<le> 2 ^ 24" by simp
    then show ?thesis
      unfolding fx u_def using fround_representable [of "- 126" n] by simp
  qed
qed

lemma fround_error:
  assumes "\<bar>x\<bar> \<le> r" and "2 powi (- 126) \<le> r"
  shows "\<bar>fround x - x\<bar> \<le> r / 2 ^ 24"
proof (cases "x = 0")
  case True
  with assms show ?thesis by (simp add: fround_def)
next
  case False
  then show ?thesis
  proof (cases rule: fround_cases)
    case (normal e)
    define u :: real where "u = 2 powi (e - 23)"
    have u: "0 < u" by (simp add: u_def)
    have "fround x - x = (of_int (round_half_even (x / u)) - x / u) * u"
      using fround_binade [OF normal(2,3,1)] u by (simp add: u_def field_simps)
    then have "\<bar>fround x - x\<bar> = \<bar>of_int (round_half_even (x / u)) - x / u\<bar> * u"
      using u by (simp add: abs_mult)
    also have "\<dots> \<le> 1 / 2 * u"
      using round_half_even_error [of "x / u"] u by (intro mult_right_mono) simp_all
    also have "\<dots> = 2 powi e / 2 ^ 24"
      unfolding two_powi_split' [of e] u_def by simp
    also have "\<dots> \<le> r / 2 ^ 24"
      using normal(2) assms(1) by (simp add: divide_right_mono)
    finally show ?thesis .
  next
    case subnormal
    define u :: real where "u = 2 powi (- 126 - 23)"
    have u: "0 < u" by (simp add: u_def)
    have "fround x - x = (of_int (round_half_even (x / u)) - x / u) * u"
      using fround_subnormal [OF subnormal] u by (simp add: u_def field_simps)
    then have "\<bar>fround x - x\<bar> = \<bar>of_int (round_half_even (x / u)) - x / u\<bar> * u"
      using u by (simp add: abs_mult)
    also have "\<dots> \<le> 1 / 2 * u"
      using round_half_even_error [of "x / u"] u by (intro mult_right_mono) simp_all
    also have "\<dots> = 2 powi (- 126) / 2 ^ 24"
      unfolding two_powi_split' [of "- 126"] u_def by simp
    also have "\<dots> \<le> r / 2 ^ 24"
      using assms(2) by (simp add: divide_right_mono)
    finally show ?thesis .
  qed
qed

lemma fround_nonneg:
  assumes "0 \<le> x"
  shows "0 \<le> fround x"
proof (cases "x = 0")
  case True
  then show ?thesis by (simp add: fround_def)
next
  case False
  define u :: real where "u = 2 powi (max (- 126) \<lfloor>log 2 \<bar>x\<bar>\<rfloor> - 23)"
  have u: "0 < u" by (simp add: u_def)
  then have "of_int 0 \<le> x / u" using assms by simp
  then have "0 \<le> round_half_even (x / u)" by (rule round_half_even_ge)
  then have "0 \<le> of_int (round_half_even (x / u)) * u" using u by simp
  with False show ?thesis by (simp add: fround_def Let_def u_def)
qed

lemma fround_nonpos:
  assumes "x \<le> 0"
  shows "fround x \<le> 0"
proof (cases "x = 0")
  case True
  then show ?thesis by (simp add: fround_def)
next
  case False
  define u :: real where "u = 2 powi (max (- 126) \<lfloor>log 2 \<bar>x\<bar>\<rfloor> - 23)"
  have u: "0 < u" by (simp add: u_def)
  then have "x / u \<le> of_int 0" using assms by (simp add: divide_nonpos_pos)
  then have "round_half_even (x / u) \<le> 0" by (rule round_half_even_le)
  then have "of_int (round_half_even (x / u)) * u \<le> 0"
    using u by (simp add: mult_le_0_iff)
  with False show ?thesis by (simp add: fround_def Let_def u_def)
qed

lemma fround_le_one:
  assumes "x \<le> 1"
  shows "fround x \<le> 1"
proof (cases "0 < x")
  case False
  then have "x \<le> 0" by simp
  then have "fround x \<le> 0" by (rule fround_nonpos)
  then show ?thesis by simp
next
  case True
  then have "x \<noteq> 0" by simp
  then show ?thesis
  proof (cases rule: fround_cases)
    case (normal e)
    have "2 powi e \<le> (1::real)" using normal(2) assms True by simp
    have e: "e \<le> 0"
    proof (rule ccontr)
      assume "\<not> e \<le> 0"
      then have "(2::real) powi 0 < 2 powi e"
        by (intro power_int_strict_increasing) simp_all
      with \<open>2 powi e \<le> (1::real)\<close> show False by simp
    qed
    define m where "m = nat (23 - e)"
    define u :: real where "u = 2 powi (e - 23)"
    have u: "0 < u" by (simp add: u_def)
    have iu: "1 / u = of_int (2 ^ m)"
      using e by (simp add: u_def m_def power_int_def power_int_minus field_simps)
    have "x / u \<le> of_int (2 ^ m)" using assms u iu [symmetric] by (simp add: field_simps)
    then have "round_half_even (x / u) \<le> 2 ^ m" by (rule round_half_even_le)
    then have "of_int (round_half_even (x / u)) * u \<le> of_int (2 ^ m) * u"
      using u by (intro mult_right_mono) simp_all
    also have "\<dots> = 1" using iu u by (simp add: field_simps)
    finally show ?thesis using fround_binade [OF normal(2,3,1)] by (simp add: u_def)
  next
    case subnormal
    have "\<bar>fround x - x\<bar> \<le> 2 powi (- 126) / 2 ^ 24"
      using subnormal by (intro fround_error) simp_all
    moreover have "(2::real) powi (- 126) \<le> 2 powi (- 1)"
      by (intro power_int_increasing) simp_all
    ultimately show ?thesis using subnormal by (simp add: power_int_minus abs_if split: if_splits)
  qed
qed


lemma fround_value_of: "fround (value_of c) = value_of c"
proof -
  have "value_of c \<in> range fround" by (rule value_of)
  then obtain y where "value_of c = fround y" by blast
  then show ?thesis by (simp add: fround_idem)
qed

lemma Math_fround_value_of: "Math_fround (value_of c) = c"
  by (simp add: Math_fround_def fround_value_of value_of_inverse)

lemma round_half_even_near:
  assumes "of_int n \<le> y" and "y < of_int n + 1 / 2"
  shows "round_half_even y = n"
proof -
  from assms have "\<lfloor>y\<rfloor> = n" by (simp add: floor_eq_iff)
  with assms(2) show ?thesis by (simp add: round_half_even_def)
qed

lemma norm3_triangle:
  "sqrt ((a + d)\<^sup>2 + (b + e)\<^sup>2 + (c + f)\<^sup>2)
     \<le> sqrt (a\<^sup>2 + b\<^sup>2 + c\<^sup>2) + sqrt (d\<^sup>2 + e\<^sup>2 + f\<^sup>2)" for a b c d e f :: real
proof -
  define U where "U = sqrt ((a + d)\<^sup>2 + (b + e)\<^sup>2)"
  define V where "V = sqrt (a\<^sup>2 + b\<^sup>2)"
  define W where "W = sqrt (d\<^sup>2 + e\<^sup>2)"
  have U: "0 \<le> U" "U \<le> V + W"
    unfolding U_def V_def W_def by (simp, rule real_sqrt_sum_squares_triangle_ineq)
  have VW: "0 \<le> V" "0 \<le> W" by (simp_all add: V_def W_def)
  have "(a + d)\<^sup>2 + (b + e)\<^sup>2 + (c + f)\<^sup>2 = U\<^sup>2 + (c + f)\<^sup>2"
    by (simp add: U_def)
  also have "\<dots> \<le> (V + W)\<^sup>2 + (c + f)\<^sup>2"
    using U by (simp add: power_mono)
  finally have "sqrt ((a + d)\<^sup>2 + (b + e)\<^sup>2 + (c + f)\<^sup>2) \<le> sqrt ((V + W)\<^sup>2 + (c + f)\<^sup>2)"
    by simp
  also have "\<dots> \<le> sqrt (V\<^sup>2 + c\<^sup>2) + sqrt (W\<^sup>2 + f\<^sup>2)"
    by (rule real_sqrt_sum_squares_triangle_ineq)
  also have "\<dots> = sqrt (a\<^sup>2 + b\<^sup>2 + c\<^sup>2) + sqrt (d\<^sup>2 + e\<^sup>2 + f\<^sup>2)"
    by (simp add: V_def W_def)
  finally show ?thesis .
qed

lemma norm3_small:
  fixes d e f :: real
  assumes "\<bar>d\<bar> \<le> t" "\<bar>e\<bar> \<le> t" "\<bar>f\<bar> \<le> t"
  shows "sqrt (d\<^sup>2 + e\<^sup>2 + f\<^sup>2) \<le> 2 * t"
proof -
  have t: "0 \<le> t" using assms(1) by linarith
  have "d\<^sup>2 \<le> t\<^sup>2" "e\<^sup>2 \<le> t\<^sup>2" "f\<^sup>2 \<le> t\<^sup>2"
    using assms by (simp_all add: abs_le_square_iff [symmetric] t)
  moreover have "(2 * t)\<^sup>2 = 4 * t\<^sup>2" by (simp add: power2_eq_square)
  moreover have "0 \<le> t\<^sup>2" by simp
  ultimately have "d\<^sup>2 + e\<^sup>2 + f\<^sup>2 \<le> (2 * t)\<^sup>2" by linarith
  then show ?thesis using t by (intro real_le_lsqrt) simp_all
qed

text \<open>The norm of a position whose coordinates are each off by at most \<open>t\<close>.\<close>

lemma norm3_perturbed:
  fixes a b c a' b' c' :: real
  assumes "\<bar>a' - a\<bar> \<le> t" "\<bar>b' - b\<bar> \<le> t" "\<bar>c' - c\<bar> \<le> t"
  shows "\<bar>sqrt (a'\<^sup>2 + b'\<^sup>2 + c'\<^sup>2) - sqrt (a\<^sup>2 + b\<^sup>2 + c\<^sup>2)\<bar> \<le> 2 * t"
proof -
  have "sqrt ((a + (a' - a))\<^sup>2 + (b + (b' - b))\<^sup>2 + (c + (c' - c))\<^sup>2)
      \<le> sqrt (a\<^sup>2 + b\<^sup>2 + c\<^sup>2) + sqrt ((a' - a)\<^sup>2 + (b' - b)\<^sup>2 + (c' - c)\<^sup>2)"
    by (rule norm3_triangle)
  moreover have "sqrt ((a' - a)\<^sup>2 + (b' - b)\<^sup>2 + (c' - c)\<^sup>2) \<le> 2 * t"
    using assms by (rule norm3_small)
  ultimately have up: "sqrt (a'\<^sup>2 + b'\<^sup>2 + c'\<^sup>2) \<le> sqrt (a\<^sup>2 + b\<^sup>2 + c\<^sup>2) + 2 * t"
    by simp
  have "sqrt ((a' + (a - a'))\<^sup>2 + (b' + (b - b'))\<^sup>2 + (c' + (c - c'))\<^sup>2)
      \<le> sqrt (a'\<^sup>2 + b'\<^sup>2 + c'\<^sup>2) + sqrt ((a - a')\<^sup>2 + (b - b')\<^sup>2 + (c - c')\<^sup>2)"
    by (rule norm3_triangle)
  moreover have "sqrt ((a - a')\<^sup>2 + (b - b')\<^sup>2 + (c - c')\<^sup>2) \<le> 2 * t"
    using assms by (intro norm3_small) (simp_all add: abs_minus_commute)
  ultimately have "sqrt (a\<^sup>2 + b\<^sup>2 + c\<^sup>2) \<le> sqrt (a'\<^sup>2 + b'\<^sup>2 + c'\<^sup>2) + 2 * t"
    by simp
  with up show ?thesis by linarith
qed

lemma fround_diagonal: "fround (25 * sqrt 2) = 9268190 / 2 ^ 18"
proof -
  have "(1250::real) * 2 ^ 36 = (25 * 2 ^ 18)\<^sup>2 * 2" by simp
  then have "sqrt (1250 * 2 ^ 36) = sqrt ((25 * 2 ^ 18)\<^sup>2 * 2)" by (rule arg_cong)
  also have "\<dots> = 25 * 2 ^ 18 * sqrt 2" by (simp only: real_sqrt_mult real_sqrt_abs) simp
  finally have s: "25 * sqrt 2 * 2 ^ 18 = sqrt (1250 * 2 ^ 36)" by simp
  have lo: "of_int 9268190 \<le> 25 * sqrt 2 * 2 ^ 18"
    unfolding s by (rule real_le_rsqrt) simp
  have hi: "25 * sqrt 2 * 2 ^ 18 < of_int 9268190 + 1 / 2"
    unfolding s by (rule real_less_lsqrt) (simp_all add: power2_eq_square)
  have r: "round_half_even (25 * sqrt 2 * 2 ^ 18) = 9268190"
    using lo hi by (rule round_half_even_near)
  have "(2::real) ^ 5 \<le> 25 * sqrt 2" using lo by simp
  moreover have "25 * sqrt 2 < (2::real) ^ 6" using hi by simp
  ultimately have "2 powi 5 \<le> \<bar>25 * sqrt 2\<bar>" "\<bar>25 * sqrt 2\<bar> < 2 powi (5 + 1)"
    by simp_all
  from fround_binade [OF this] r show ?thesis
    by (simp add: power_int_minus field_simps)
qed

lemma fround_zero: "fround 0 = 0"
  by (simp add: fround_def)

lemma fround_values:
  "fround (3 / 2) = 3 / 2" "fround 3 = 3" "fround 1 = 1" "fround (- 50) = - 50"
  "fround (9 / 10) = 15099494 / 2 ^ 24" "fround (39 / 20) = 16357786 / 2 ^ 23"
  "fround (3 / 100) = 16106127 / 2 ^ 29"
  using fround_binade [of 0 "3 / 2"] fround_binade [of 1 3] fround_binade [of 0 1]
    fround_binade [of 5 "- 50"] fround_binade [of "- 1" "9 / 10"] fround_binade [of 0 "39 / 20"]
    fround_binade [of "- 6" "3 / 100"]
  by (simp_all add: round_half_even_def power_int_minus field_simps)


section \<open>Facts on star generation\<close>

lemma shouldPlace_zero_rng: "shouldPlace zero_rng k"
  by (simp add: shouldPlace_def zero_rng_def add_pos_pos)

lemma not_skipped_zero_rng: "\<not> skipped zero_rng k"
  by (simp add: skipped_def shouldPlace_zero_rng)

lemma skipped_half_rng: "skipped half_rng k"
  by (simp add: skipped_def shouldPlace_def half_rng_def)

lemma valid_zero_rng: "valid_rng zero_rng"
  by (simp add: valid_rng_def zero_rng_def)

lemma fair_zero_rng: "fair zero_rng"
  by (simp add: fair_def not_skipped_zero_rng)

lemma new_buffers_ok: "buffers_ok count (new_buffers count)"
  by (simp add: buffers_ok_def new_buffers_def)

lemma place_star_ok: "buffers_ok count b \<Longrightarrow> buffers_ok count (place_star g count i k b)"
  by (simp add: buffers_ok_def place_star_def Let_def)

lemma select_loop_in: "select_loop rand c ts d \<in> insert d (set ts)"
  by (induction ts arbitrary: c) (auto simp: Let_def)

lemma select_type_in: "select_type rand \<in> set stellarTypes"
  using select_loop_in [of rand 0 stellarTypes "stellarTypes ! 0"]
  by (auto simp: select_type_def stellarTypes_def)

lemma table_colors:
  "t \<in> set stellarTypes \<Longrightarrow> 0 \<le> color_r t \<and> 0 \<le> color_g t \<and> 0 \<le> color_b t"
  by (auto simp: stellarTypes_def mk_type_def)

lemma sphere_norm:
  "sqrt ((r * sin p * cos t)\<^sup>2 + (r * sin p * sin t)\<^sup>2 + (r * cos p)\<^sup>2) = \<bar>r\<bar>"
proof -
  have "(r * sin p * cos t)\<^sup>2 + (r * sin p * sin t)\<^sup>2 + (r * cos p)\<^sup>2
      = r\<^sup>2 * ((sin p)\<^sup>2 * ((sin t)\<^sup>2 + (cos t)\<^sup>2) + (cos p)\<^sup>2)"
    by algebra
  also have "\<dots> = r\<^sup>2" by simp
  finally show ?thesis by simp
qed

lemma star_radius_bounds:
  "0 \<le> r \<Longrightarrow> r < 1 \<Longrightarrow>
   tier_min count i \<le> star_radius count i r \<and> star_radius count i r \<le> tier_max count i"
  by (simp add: tier_min_def tier_max_def star_radius_def)

lemma nth_upd3_other:
  "(j::nat) \<noteq> i \<Longrightarrow> c < 3 \<Longrightarrow>
   xs[i * 3 := x, i * 3 + 1 := y, i * 3 + 2 := z] ! (j * 3 + c) = xs ! (j * 3 + c)"
proof -
  assume "j \<noteq> i" "c < 3"
  then have "j * 3 + c \<noteq> i * 3" "j * 3 + c \<noteq> i * 3 + 1" "j * 3 + c \<noteq> i * 3 + 2"
    by arith+
  then show ?thesis by (simp only: nth_list_update_neq not_sym)
qed

lemma nth_upd3_same:
  assumes "i * 3 + 2 < length xs"
  shows "xs[i * 3 := x, i * 3 + 1 := y, i * 3 + 2 := z] ! (i * 3) = x"
    and "xs[i * 3 := x, i * 3 + 1 := y, i * 3 + 2 := z] ! (i * 3 + 1) = y"
    and "xs[i * 3 := x, i * 3 + 1 := y, i * 3 + 2 := z] ! (i * 3 + 2) = z"
  using assms by simp_all

lemma nth_upd: "xs[i := x] ! j = (if i = j \<and> i < length xs then x else xs ! j)"
  by (cases "i < length xs") (auto simp: nth_list_update list_update_beyond)

lemma positions_place_star:
  "positions (place_star g count i k b) = (positions b)
     [i * 3 := Math_fround
        (star_radius count i (g k) * sin (arccos (g (k + 2) * 2 - 1)) * cos (g (k + 1) * pi * 2)),
      i * 3 + 1 := Math_fround
        (star_radius count i (g k) * sin (arccos (g (k + 2) * 2 - 1)) * sin (g (k + 1) * pi * 2)),
      i * 3 + 2 := Math_fround (star_radius count i (g k) * cos (arccos (g (k + 2) * 2 - 1)))]"
  by (simp add: place_star_def Let_def)

lemma colors_place_star:
  "colors (place_star g count i k b) = (colors b)
     [i * 3 := Math_fround
        (min 1 (color_r (select_type (g (k + 3))) * (1 + (g (k + 6) - 1 / 2) * (1 / 10)))),
      i * 3 + 1 := Math_fround
        (min 1 (color_g (select_type (g (k + 3))) * (1 + (g (k + 6) - 1 / 2) * (1 / 10)))),
      i * 3 + 2 := Math_fround
        (min 1 (color_b (select_type (g (k + 3))) * (1 + (g (k + 6) - 1 / 2) * (1 / 10))))]"
  by (simp add: place_star_def Let_def)

lemma sizes_place_star:
  "sizes (place_star g count i k b) =
     (sizes b)[i := Math_fround (finalSize (select_type (g (k + 3))) (g (k + 4)) (g (k + 5)))]"
  by (simp add: place_star_def Let_def)

lemma magnitudes_place_star:
  "magnitudes (place_star g count i k b) = (magnitudes b)[i := Math_fround (g (k + 4))]"
  by (simp add: place_star_def Let_def)

text \<open>
  The cells of star \<open>i\<close> after the body has run for \<open>i\<close> do not depend on what the
  arrays held before, and the body leaves the cells of every other star alone.
\<close>

lemma star_cells_this:
  assumes "buffers_ok count b" and "i < count"
  shows "star_cells (place_star g count i k b) i =
    [Math_fround
       (star_radius count i (g k) * sin (arccos (g (k + 2) * 2 - 1)) * cos (g (k + 1) * pi * 2)),
     Math_fround
       (star_radius count i (g k) * sin (arccos (g (k + 2) * 2 - 1)) * sin (g (k + 1) * pi * 2)),
     Math_fround (star_radius count i (g k) * cos (arccos (g (k + 2) * 2 - 1))),
     Math_fround (min 1 (color_r (select_type (g (k + 3))) * (1 + (g (k + 6) - 1 / 2) * (1 / 10)))),
     Math_fround (min 1 (color_g (select_type (g (k + 3))) * (1 + (g (k + 6) - 1 / 2) * (1 / 10)))),
     Math_fround (min 1 (color_b (select_type (g (k + 3))) * (1 + (g (k + 6) - 1 / 2) * (1 / 10)))),
     Math_fround (finalSize (select_type (g (k + 3))) (g (k + 4)) (g (k + 5))),
     Math_fround (g (k + 4))]"
proof -
  have len: "i * 3 + 2 < length (positions b)" "i * 3 + 2 < length (colors b)"
    "i < length (sizes b)" "i < length (magnitudes b)"
    using assms by (simp_all add: buffers_ok_def)
  show ?thesis
    unfolding star_cells_def positions_place_star colors_place_star sizes_place_star
      magnitudes_place_star
    by (simp only: nth_upd3_same [OF len(1)] nth_upd3_same [OF len(2)]
        nth_list_update_eq [OF len(3)] nth_list_update_eq [OF len(4)])
qed

lemma star_cells_other:
  assumes "j \<noteq> i"
  shows "star_cells (place_star g count i k b) j = star_cells b j"
proof -
  have p: "positions (place_star g count i k b) ! (j * 3 + c) = positions b ! (j * 3 + c)"
    if "c < 3" for c
    unfolding positions_place_star using assms that by (rule nth_upd3_other)
  have c: "colors (place_star g count i k b) ! (j * 3 + c) = colors b ! (j * 3 + c)"
    if "c < 3" for c
    unfolding colors_place_star using assms that by (rule nth_upd3_other)
  have s: "sizes (place_star g count i k b) ! j = sizes b ! j"
    "magnitudes (place_star g count i k b) ! j = magnitudes b ! j"
    using assms by (simp_all add: sizes_place_star magnitudes_place_star)
  from p [of 0] p [of 1] p [of 2] c [of 0] c [of 1] c [of 2] s
  show ?thesis by (simp add: star_cells_def)
qed

lemma written_this:
  assumes "buffers_ok count b" and "i < count"
  shows "written g count (place_star g count i k b) i"
proof -
  have "star_cells (place_star g count i k b) i
      = star_cells (place_star g count i k (new_buffers count)) i"
    unfolding star_cells_this [OF assms] star_cells_this [OF new_buffers_ok assms(2)]
    by (rule refl)
  then show ?thesis unfolding written_def by (rule exI)
qed

lemma written_other:
  assumes "j \<noteq> i" and "written g count b j"
  shows "written g count (place_star g count i k b) j"
  using assms(2) unfolding written_def star_cells_other [OF assms(1)] .

lemma place_star_this:
  assumes g: "valid_rng g" and ok: "buffers_ok count b" and i: "i < count"
  shows "star_ok count (place_star g count i k b) i"
proof -
  let ?t = "select_type (g (k + 3))"
  let ?v = "1 + (g (k + 6) - 1 / 2) * (1 / 10)"
  let ?r = "star_radius count i (g k)"
  let ?p = "arccos (g (k + 2) * 2 - 1)"
  let ?q = "g (k + 1) * pi * 2"
  have "0 \<le> g (k + 6)" using g by (simp add: valid_rng_def)
  then have v: "0 \<le> ?v" by argo
  have t: "0 \<le> color_r ?t" "0 \<le> color_g ?t" "0 \<le> color_b ?t"
    using table_colors [OF select_type_in] by blast+
  have unit: "0 \<le> value_of (Math_fround (min 1 (c * ?v))) \<and>
              value_of (Math_fround (min 1 (c * ?v))) \<le> 1" if "0 \<le> c" for c
    unfolding value_of_Math_fround
    using that v by (intro conjI fround_nonneg fround_le_one) simp_all
  have r: "0 \<le> g k" "g k < 1" using g by (simp_all add: valid_rng_def)
  have len: "i * 3 + 2 < length (positions b)" "i * 3 + 2 < length (colors b)"
    using ok i by (simp_all add: buffers_ok_def)
  have col: "0 \<le> value_of (colors (place_star g count i k b) ! (i * 3 + c)) \<and>
             value_of (colors (place_star g count i k b) ! (i * 3 + c)) \<le> 1" if "c < 3" for c
  proof -
    from that consider "c = 0" | "c = 1" | "c = 2" by linarith
    then show ?thesis
    proof cases
      case 1 then show ?thesis
        using nth_upd3_same(1) [OF len(2)] unit [OF t(1)] by (simp add: colors_place_star)
    next
      case 2 then show ?thesis
        using unit [OF t(2)] by (simp only: colors_place_star nth_upd3_same(2) [OF len(2)])
    next
      case 3 then show ?thesis
        using unit [OF t(3)] by (simp only: colors_place_star nth_upd3_same(3) [OF len(2)])
    qed
  qed
  have rad: "tier_min count i \<le> ?r" "?r \<le> tier_max count i"
    using star_radius_bounds [OF r, of count i] by blast+
  have "50 \<le> tier_min count i" by (simp add: tier_min_def)
  with rad have r50: "50 \<le> ?r" by linarith
  have small: "2 powi (- 126) \<le> ?r"
  proof -
    have "(2::real) powi (- 126) \<le> 2 powi 0" by (intro power_int_increasing) simp_all
    with r50 show ?thesis by simp
  qed
  have tr: "\<bar>sin x * cos y\<bar> \<le> 1" "\<bar>sin x * sin y\<bar> \<le> 1" for x y :: real
    by (simp_all add: abs_mult mult_le_one)
  have comp: "\<bar>?r * sin ?p * cos ?q\<bar> \<le> ?r" "\<bar>?r * sin ?p * sin ?q\<bar> \<le> ?r"
    "\<bar>?r * cos ?p\<bar> \<le> ?r"
  proof -
    have "\<bar>?r * (sin ?p * cos ?q)\<bar> \<le> ?r * 1"
      unfolding abs_mult using r50 tr(1) [of ?p ?q] by (intro mult_mono) simp_all
    then show "\<bar>?r * sin ?p * cos ?q\<bar> \<le> ?r" by (simp add: mult.assoc)
    have "\<bar>?r * (sin ?p * sin ?q)\<bar> \<le> ?r * 1"
      unfolding abs_mult using r50 tr(2) [of ?p ?q] by (intro mult_mono) simp_all
    then show "\<bar>?r * sin ?p * sin ?q\<bar> \<le> ?r" by (simp add: mult.assoc)
    have "\<bar>?r * cos ?p\<bar> \<le> ?r * 1"
      unfolding abs_mult using r50 by (intro mult_mono) simp_all
    then show "\<bar>?r * cos ?p\<bar> \<le> ?r" by simp
  qed
  have "position_norm (place_star g count i k b) i =
      sqrt ((fround (?r * sin ?p * cos ?q))\<^sup>2 + (fround (?r * sin ?p * sin ?q))\<^sup>2 +
            (fround (?r * cos ?p))\<^sup>2)"
    unfolding position_norm_def positions_place_star
    by (simp only: nth_upd3_same [OF len(1)] value_of_Math_fround)
  moreover have "\<bar>sqrt ((fround (?r * sin ?p * cos ?q))\<^sup>2 + (fround (?r * sin ?p * sin ?q))\<^sup>2 +
            (fround (?r * cos ?p))\<^sup>2)
        - sqrt ((?r * sin ?p * cos ?q)\<^sup>2 + (?r * sin ?p * sin ?q)\<^sup>2 + (?r * cos ?p)\<^sup>2)\<bar>
      \<le> 2 * (?r / 2 ^ 24)"
    by (intro norm3_perturbed fround_error comp small)
  moreover have "sqrt ((?r * sin ?p * cos ?q)\<^sup>2 + (?r * sin ?p * sin ?q)\<^sup>2 + (?r * cos ?p)\<^sup>2) = ?r"
    using r50 by (simp add: sphere_norm)
  ultimately have n: "\<bar>position_norm (place_star g count i k b) i - ?r\<bar> \<le> ?r / 2 ^ 23"
    by simp
  from n have near: "?r - ?r / 2 ^ 23 \<le> position_norm (place_star g count i k b) i"
    "position_norm (place_star g count i k b) i \<le> ?r + ?r / 2 ^ 23"
    by linarith+
  have "tier_min count i * (1 - 1 / 2 ^ 23) \<le> ?r * (1 - 1 / 2 ^ 23)"
    using rad(1) by (intro mult_right_mono) simp_all
  also have "\<dots> = ?r - ?r / 2 ^ 23" by (simp add: algebra_simps)
  finally have lo: "tier_min count i * (1 - 1 / 2 ^ 23) \<le> position_norm (place_star g count i k b) i"
    using near(1) by linarith
  have "?r + ?r / 2 ^ 23 = ?r * (1 + 1 / 2 ^ 23)" by (simp add: algebra_simps)
  also have "\<dots> \<le> tier_max count i * (1 + 1 / 2 ^ 23)"
    using rad(2) by (intro mult_right_mono) simp_all
  finally have "position_norm (place_star g count i k b) i \<le> tier_max count i * (1 + 1 / 2 ^ 23)"
    using near(2) by linarith
  with col lo show ?thesis by (simp add: star_ok_def)
qed

lemma place_star_other:
  assumes "j \<noteq> i" and "star_ok count b j"
  shows "star_ok count (place_star g count i k b) j"
proof -
  have c: "colors (place_star g count i k b) ! (j * 3 + c) = colors b ! (j * 3 + c)"
    if "c < 3" for c
    unfolding colors_place_star using assms(1) that by (rule nth_upd3_other)
  have p: "positions (place_star g count i k b) ! (j * 3 + c) = positions b ! (j * 3 + c)"
    if "c < 3" for c
    unfolding positions_place_star using assms(1) that by (rule nth_upd3_other)
  have "position_norm (place_star g count i k b) j = position_norm b j"
    using p [of 0] p [of 1] p [of 2] by (simp add: position_norm_def)
  with c show ?thesis using assms(2) by (simp add: star_ok_def)
qed

subsection \<open>The loop\<close>

lemma star_loop_done: "\<not> i < count \<Longrightarrow> star_loop g count i k b = Some (b, k)"
  by (subst star_loop.simps) simp

lemma star_loop_retry:
  "i < count \<Longrightarrow> skipped g k \<Longrightarrow> star_loop g count i k b = star_loop g count i (k + 3) b"
  by (subst star_loop.simps) simp

lemma star_loop_place:
  "i < count \<Longrightarrow> \<not> skipped g k \<Longrightarrow>
   star_loop g count i k b =
   star_loop g count (i + 1) ((if shouldPlace g k then k + 2 else k + 3) + 7)
     (place_star g count i (if shouldPlace g k then k + 2 else k + 3) b)"
  by (subst star_loop.simps) (simp add: Let_def)

lemma star_loop_retries:
  "i < count \<Longrightarrow> \<forall>m<n. skipped g (k + 3 * m) \<Longrightarrow>
   star_loop g count i k b = star_loop g count i (k + 3 * n) b"
proof (induction n arbitrary: k)
  case 0
  then show ?case by simp
next
  case (Suc n)
  from Suc.prems(2) have "skipped g k" by force
  then have "star_loop g count i k b = star_loop g count i (k + 3) b"
    using Suc.prems(1) by (rule star_loop_retry [rotated])
  also have "\<dots> = star_loop g count i (k + 3 + 3 * n) b"
  proof (rule Suc.IH [OF Suc.prems(1)], intro allI impI)
    fix m assume "m < n"
    then have "skipped g (k + 3 * Suc m)" using Suc.prems(2) by blast
    then show "skipped g (k + 3 + 3 * m)" by (simp add: add.assoc)
  qed
  finally show ?case by (simp add: add.assoc)
qed

lemma star_loop_total:
  assumes "fair g"
  shows "i \<le> count \<Longrightarrow> buffers_ok count b \<Longrightarrow> \<forall>j<i. written g count b j \<Longrightarrow>
         \<exists>b' k'. star_loop g count i k b = Some (b', k') \<and> buffers_ok count b' \<and>
                 (\<forall>j<count. written g count b' j)"
proof (induction "count - i" arbitrary: i k b)
  case 0
  then have "i = count" by simp
  with 0 show ?case by (simp add: star_loop_done)
next
  case (Suc d)
  then have i: "i < count" by simp
  from assms obtain n0 where "\<not> skipped g (k + 3 * n0)"
    unfolding fair_def by blast
  then obtain n where n: "\<not> skipped g (k + 3 * n)" "\<forall>m<n. skipped g (k + 3 * m)"
    using exists_least_iff [of "\<lambda>n. \<not> skipped g (k + 3 * n)"] by blast
  define k1 where "k1 = (if shouldPlace g (k + 3 * n) then k + 3 * n + 2 else k + 3 * n + 3)"
  have "star_loop g count i k b = star_loop g count i (k + 3 * n) b"
    using i n(2) by (rule star_loop_retries)
  also have "\<dots> = star_loop g count (i + 1) (k1 + 7) (place_star g count i k1 b)"
    unfolding k1_def using i n(1) by (rule star_loop_place)
  finally have step: "star_loop g count i k b
      = star_loop g count (i + 1) (k1 + 7) (place_star g count i k1 b)" .
  have "\<forall>j<i + 1. written g count (place_star g count i k1 b) j"
  proof (intro allI impI)
    fix j assume "j < i + 1"
    then consider "j = i" | "j < i" by linarith
    then show "written g count (place_star g count i k1 b) j"
    proof cases
      case 1 then show ?thesis using written_this [OF Suc.prems(2) i] by simp
    next
      case 2 then show ?thesis using Suc.prems(3) by (simp add: written_other)
    qed
  qed
  moreover have "d = count - (i + 1)" using Suc.hyps(2) by simp
  moreover have "i + 1 \<le> count" using i by simp
  ultimately show ?case
    using Suc.hyps(1) [of "i + 1" "place_star g count i k1 b" "k1 + 7"]
      place_star_ok [OF Suc.prems(2)] step by simp
qed

lemma star_loop_partial:
  assumes run: "star_loop g count i k b = Some r"
  shows "valid_rng g \<longrightarrow> i \<le> count \<longrightarrow> buffers_ok count b \<longrightarrow> (\<forall>j<i. star_ok count b j) \<longrightarrow>
         buffers_ok count (fst r) \<and> (\<forall>j<count. star_ok count (fst r) j)"
proof (rule star_loop.raw_induct [where P = "\<lambda>g count i k b r.
    valid_rng g \<longrightarrow> i \<le> count \<longrightarrow> buffers_ok count b \<longrightarrow> (\<forall>j<i. star_ok count b j) \<longrightarrow>
    buffers_ok count (fst r) \<and> (\<forall>j<count. star_ok count (fst r) j)", OF _ run], goal_cases)
  case (1 f g count i k b r)
  show ?case
  proof (intro impI)
    assume g: "valid_rng g" and le: "i \<le> count" and ok: "buffers_ok count b"
      and stars: "\<forall>j<i. star_ok count b j"
    show "buffers_ok count (fst r) \<and> (\<forall>j<count. star_ok count (fst r) j)"
    proof (cases "i < count")
      case False
      with 1(2) le ok stars show ?thesis by auto
    next
      case i: True
      show ?thesis
      proof (cases "skipped g k")
        case True
        with 1(2) i have "f g count i (k + 3) b = Some r" by simp
        from 1(1) [OF this] g le ok stars show ?thesis by blast
      next
        case False
        define k1 where "k1 = (if shouldPlace g k then k + 2 else k + 3)"
        from False 1(2) i
        have "f g count (i + 1) (k1 + 7) (place_star g count i k1 b) = Some r"
          by (simp add: Let_def k1_def)
        moreover have "\<forall>j<i + 1. star_ok count (place_star g count i k1 b) j"
        proof (intro allI impI)
          fix j assume "j < i + 1"
          then consider "j = i" | "j < i" by linarith
          then show "star_ok count (place_star g count i k1 b) j"
          proof cases
            case 1 then show ?thesis using place_star_this [OF g ok i] by simp
          next
            case 2 then show ?thesis using stars by (simp add: place_star_other)
          qed
        qed
        ultimately show ?thesis
          using 1(1) g i place_star_ok [OF ok] by (metis Suc_eq_plus1 Suc_leI)
      qed
    qed
  qed
qed

lemma star_loop_half_rng:
  assumes run: "star_loop g count i k b = Some r"
  shows "g = half_rng \<longrightarrow> \<not> i < count"
proof (rule star_loop.raw_induct
    [where P = "\<lambda>g count i k b r. g = half_rng \<longrightarrow> \<not> i < count", OF _ run], goal_cases)
  case (1 f g count i k b r)
  show ?case
  proof (intro impI notI)
    assume g: "g = half_rng" and i: "i < count"
    from 1(2) i g have "f g count i (k + 3) b = Some r"
      by (simp add: skipped_half_rng)
    from 1(1) [OF this] g i show False by simp
  qed
qed

lemma colors_of_stars:
  assumes "\<forall>i<count. star_ok count b i" and "j < count * 3"
  shows "0 \<le> value_of (colors b ! j) \<and> value_of (colors b ! j) \<le> 1"
proof -
  have "j div 3 < count" using assms(2) by (simp add: less_mult_imp_div_less)
  moreover have "j mod 3 < 3" by simp
  ultimately have "0 \<le> value_of (colors b ! (j div 3 * 3 + j mod 3)) \<and>
      value_of (colors b ! (j div 3 * 3 + j mod 3)) \<le> 1"
    using assms(1) unfolding star_ok_def by blast
  then show ?thesis by simp
qed

lemma generateStars_zero_rng_1: "generateStars zero_rng 0 1 = Some (example_buffers, 9)"
proof -
  have "star_loop zero_rng 1 0 0 (new_buffers 1)
      = star_loop zero_rng 1 1 9 (place_star zero_rng 1 0 2 (new_buffers 1))"
    using star_loop_place [of 0 1 zero_rng 0 "new_buffers 1"]
    by (simp add: not_skipped_zero_rng shouldPlace_zero_rng numeral_2_eq_2)
  also have "\<dots> = Some (place_star zero_rng 1 0 2 (new_buffers 1), 9)"
    by (simp add: star_loop_done)
  also have "place_star zero_rng 1 0 2 (new_buffers 1) = example_buffers"
    by (simp add: place_star_def star_radius_def finalSize_def select_type_def stellarTypes_def
        mk_type_def zero_rng_def new_buffers_def numeral_3_eq_3 example_buffers_def)
  finally show ?thesis by (simp add: generateStars_def)
qed

section \<open>Facts on the twinkle animation\<close>

lemma twinkle_star_result:
  assumes ok: "attributes_ok sf geo"
  shows "twinkle_star g time sf geo i (h, k) =
    (h(size_array geo := (h (size_array geo))
          [i := Math_fround (value_of (h (sizes_ref sf) ! i) *
                max (3 / 10) (scintillation time (g k) i (value_of (h (sizes_ref sf) ! i))))],
       color_array geo := (h (color_array geo))
          [i * 3 := Math_fround (min 1 (value_of (h (colors_ref sf) ! (i * 3)) *
             (1 + (scintillation time (g k) i (value_of (h (sizes_ref sf) ! i)) - 1) * (5 / 100)))),
           i * 3 + 1 := Math_fround (min 1 (value_of (h (colors_ref sf) ! (i * 3 + 1)) *
             (1 - (scintillation time (g k) i (value_of (h (sizes_ref sf) ! i)) - 1) * (5 / 100) * (3 / 10)))),
           i * 3 + 2 := Math_fround (min 1 (value_of (h (colors_ref sf) ! (i * 3 + 2)) *
             (1 - (scintillation time (g k) i (value_of (h (sizes_ref sf) ! i)) - 1) * (5 / 100) * (6 / 10))))]),
     k + 1)"
proof (cases "colors_ref sf = color_array geo")
  case True
  with ok show ?thesis
    by (auto simp: twinkle_star_def Let_def attributes_ok_def fun_upd_def nth_upd)
next
  case False
  with ok show ?thesis
    by (auto simp: twinkle_star_def Let_def attributes_ok_def fun_upd_def)
qed

lemma frame_prefix:
  fixes g :: rng and sf :: starfield and geo :: geometry and h :: store
    and k :: nat and time :: real
  defines "s \<equiv> \<lambda>i. scintillation time (g (k + i)) i (value_of (h (sizes_ref sf) ! i))"
  defines "run \<equiv> \<lambda>n. fold (twinkle_star g time sf geo) [0..<n] (h, k)"
  assumes ok: "attributes_ok sf geo" and st: "store_ok count sf geo h"
  shows "n \<le> count \<Longrightarrow>
       snd (run n) = k + n \<and>
       (\<forall>a. a \<noteq> size_array geo \<longrightarrow> a \<noteq> color_array geo \<longrightarrow> fst (run n) a = h a) \<and>
       length (fst (run n) (size_array geo)) = count \<and>
       length (fst (run n) (color_array geo)) = count * 3 \<and>
       (\<forall>i. n \<le> i \<longrightarrow> fst (run n) (size_array geo) ! i = h (size_array geo) ! i) \<and>
       (\<forall>j. n * 3 \<le> j \<longrightarrow> fst (run n) (color_array geo) ! j = h (color_array geo) ! j) \<and>
       (\<forall>i<n. fst (run n) (size_array geo) ! i = Math_fround (value_of (h (sizes_ref sf) ! i) * max (3 / 10) (s i)) \<and>
          fst (run n) (color_array geo) ! (i * 3) =
            Math_fround (min 1 (value_of (h (colors_ref sf) ! (i * 3)) * (1 + (s i - 1) * (5 / 100)))) \<and>
          fst (run n) (color_array geo) ! (i * 3 + 1) =
            Math_fround (min 1 (value_of (h (colors_ref sf) ! (i * 3 + 1)) * (1 - (s i - 1) * (5 / 100) * (3 / 10)))) \<and>
          fst (run n) (color_array geo) ! (i * 3 + 2) =
            Math_fround (min 1 (value_of (h (colors_ref sf) ! (i * 3 + 2)) * (1 - (s i - 1) * (5 / 100) * (6 / 10)))))"
proof (induction n)
  case 0
  with st show ?case by (simp add: store_ok_def run_def)
next
  case (Suc n)
  define h' where "h' = fst (run n)"
  from Suc have IH: "snd (run n) = k + n \<and>
       (\<forall>a. a \<noteq> size_array geo \<longrightarrow> a \<noteq> color_array geo \<longrightarrow> h' a = h a) \<and>
       length (h' (size_array geo)) = count \<and>
       length (h' (color_array geo)) = count * 3 \<and>
       (\<forall>i. n \<le> i \<longrightarrow> h' (size_array geo) ! i = h (size_array geo) ! i) \<and>
       (\<forall>j. n * 3 \<le> j \<longrightarrow> h' (color_array geo) ! j = h (color_array geo) ! j) \<and>
       (\<forall>i<n. h' (size_array geo) ! i = Math_fround (value_of (h (sizes_ref sf) ! i) * max (3 / 10) (s i)) \<and>
          h' (color_array geo) ! (i * 3) =
            Math_fround (min 1 (value_of (h (colors_ref sf) ! (i * 3)) * (1 + (s i - 1) * (5 / 100)))) \<and>
          h' (color_array geo) ! (i * 3 + 1) =
            Math_fround (min 1 (value_of (h (colors_ref sf) ! (i * 3 + 1)) * (1 - (s i - 1) * (5 / 100) * (3 / 10)))) \<and>
          h' (color_array geo) ! (i * 3 + 2) =
            Math_fround (min 1 (value_of (h (colors_ref sf) ! (i * 3 + 2)) * (1 - (s i - 1) * (5 / 100) * (6 / 10)))))"
    unfolding h'_def by simp
  from IH have run: "run n = (h', k + n)"
    unfolding h'_def by (simp add: prod_eq_iff)
  from IH have other: "\<And>a. a \<noteq> size_array geo \<Longrightarrow> a \<noteq> color_array geo \<Longrightarrow> h' a = h a"
    by blast
  from IH have len: "length (h' (size_array geo)) = count"
    "length (h' (color_array geo)) = count * 3"
    by blast+
  from IH have later_size: "\<And>i. n \<le> i \<Longrightarrow> h' (size_array geo) ! i = h (size_array geo) ! i"
    by blast
  from IH have later_color:
    "\<And>j. n * 3 \<le> j \<Longrightarrow> h' (color_array geo) ! j = h (color_array geo) ! j"
    by blast
  from IH have earlier: "\<And>i. i < n \<Longrightarrow>
          h' (size_array geo) ! i = Math_fround (value_of (h (sizes_ref sf) ! i) * max (3 / 10) (s i)) \<and>
          h' (color_array geo) ! (i * 3) =
            Math_fround (min 1 (value_of (h (colors_ref sf) ! (i * 3)) * (1 + (s i - 1) * (5 / 100)))) \<and>
          h' (color_array geo) ! (i * 3 + 1) =
            Math_fround (min 1 (value_of (h (colors_ref sf) ! (i * 3 + 1)) * (1 - (s i - 1) * (5 / 100) * (3 / 10)))) \<and>
          h' (color_array geo) ! (i * 3 + 2) =
            Math_fround (min 1 (value_of (h (colors_ref sf) ! (i * 3 + 2)) * (1 - (s i - 1) * (5 / 100) * (6 / 10))))"
    by blast
  from Suc.prems have n: "n < count" by simp
  have ne: "size_array geo \<noteq> color_array geo" "colors_ref sf \<noteq> size_array geo"
    "sizes_ref sf \<noteq> color_array geo"
    using ok by (auto simp: attributes_ok_def)
  have base_size: "h' (sizes_ref sf) ! n = h (sizes_ref sf) ! n"
    using later_size [of n] other [of "sizes_ref sf"] ne by (cases "sizes_ref sf = size_array geo") auto
  have base_color: "h' (colors_ref sf) ! (n * 3 + c) = h (colors_ref sf) ! (n * 3 + c)" for c
    using later_color [of "n * 3 + c"] other [of "colors_ref sf"] ne
    by (cases "colors_ref sf = color_array geo") auto
  define A where "A = (h' (size_array geo))[n := Math_fround (value_of (h (sizes_ref sf) ! n) * max (3 / 10) (s n))]"
  define C where "C = (h' (color_array geo))
          [n * 3 := Math_fround (min 1 (value_of (h (colors_ref sf) ! (n * 3)) * (1 + (s n - 1) * (5 / 100)))),
           n * 3 + 1 := Math_fround (min 1 (value_of (h (colors_ref sf) ! (n * 3 + 1)) * (1 - (s n - 1) * (5 / 100) * (3 / 10)))),
           n * 3 + 2 := Math_fround (min 1 (value_of (h (colors_ref sf) ! (n * 3 + 2)) * (1 - (s n - 1) * (5 / 100) * (6 / 10))))]"
  define h'' where "h'' = h'(size_array geo := A, color_array geo := C)"
  have "run (Suc n) = twinkle_star g time sf geo n (h', k + n)"
    using run by (simp add: run_def)
  also have "\<dots> = (h'', k + Suc n)"
    unfolding twinkle_star_result [OF ok] h''_def A_def C_def s_def
      base_size base_color base_color [of 0, simplified]
    by simp
  finally have run': "run (Suc n) = (h'', k + Suc n)" .
  have hs: "h'' (size_array geo) = A" and hc: "h'' (color_array geo) = C"
    using ne by (simp_all add: h''_def)
  have cl: "n * 3 + 2 < length (h' (color_array geo))" using n len by simp
  have 1: "\<forall>a. a \<noteq> size_array geo \<longrightarrow> a \<noteq> color_array geo \<longrightarrow> h'' a = h a"
    using other by (simp add: h''_def)
  have 2: "length (h'' (size_array geo)) = count" "length (h'' (color_array geo)) = count * 3"
    using len by (simp_all add: hs hc A_def C_def)
  have 3: "\<forall>i. Suc n \<le> i \<longrightarrow> h'' (size_array geo) ! i = h (size_array geo) ! i"
    using later_size by (simp add: hs A_def)
  have 4: "\<forall>j. Suc n * 3 \<le> j \<longrightarrow> h'' (color_array geo) ! j = h (color_array geo) ! j"
    using later_color by (simp add: hc C_def)
  have 5: "\<forall>i<Suc n. h'' (size_array geo) ! i = Math_fround (value_of (h (sizes_ref sf) ! i) * max (3 / 10) (s i)) \<and>
          h'' (color_array geo) ! (i * 3) =
            Math_fround (min 1 (value_of (h (colors_ref sf) ! (i * 3)) * (1 + (s i - 1) * (5 / 100)))) \<and>
          h'' (color_array geo) ! (i * 3 + 1) =
            Math_fround (min 1 (value_of (h (colors_ref sf) ! (i * 3 + 1)) * (1 - (s i - 1) * (5 / 100) * (3 / 10)))) \<and>
          h'' (color_array geo) ! (i * 3 + 2) =
            Math_fround (min 1 (value_of (h (colors_ref sf) ! (i * 3 + 2)) * (1 - (s i - 1) * (5 / 100) * (6 / 10))))"
  proof (intro allI impI)
    fix i assume "i < Suc n"
    show "h'' (size_array geo) ! i = Math_fround (value_of (h (sizes_ref sf) ! i) * max (3 / 10) (s i)) \<and>
          h'' (color_array geo) ! (i * 3) =
            Math_fround (min 1 (value_of (h (colors_ref sf) ! (i * 3)) * (1 + (s i - 1) * (5 / 100)))) \<and>
          h'' (color_array geo) ! (i * 3 + 1) =
            Math_fround (min 1 (value_of (h (colors_ref sf) ! (i * 3 + 1)) * (1 - (s i - 1) * (5 / 100) * (3 / 10)))) \<and>
          h'' (color_array geo) ! (i * 3 + 2) =
            Math_fround (min 1 (value_of (h (colors_ref sf) ! (i * 3 + 2)) * (1 - (s i - 1) * (5 / 100) * (6 / 10))))"
    proof (cases "i = n")
      case True
      have "A ! n = Math_fround (value_of (h (sizes_ref sf) ! n) * max (3 / 10) (s n))"
        using n len by (simp add: A_def)
      then show ?thesis
        unfolding hs hc True using nth_upd3_same [OF cl] unfolding C_def by blast
    next
      case False
      with \<open>i < Suc n\<close> have i: "i < n" by simp
      have "A ! i = h' (size_array geo) ! i" using False by (simp add: A_def)
      moreover have "C ! (i * 3 + c) = h' (color_array geo) ! (i * 3 + c)" if "c < 3" for c
        unfolding C_def using False that by (rule nth_upd3_other)
      from this [of 0] this [of 1] this [of 2]
      have "C ! (i * 3) = h' (color_array geo) ! (i * 3)"
        "C ! (i * 3 + 1) = h' (color_array geo) ! (i * 3 + 1)"
        "C ! (i * 3 + 2) = h' (color_array geo) ! (i * 3 + 2)" by simp_all
      ultimately show ?thesis using earlier [OF i] by (simp only: hs hc)
    qed
  qed
  show ?case
    unfolding run' fst_conv snd_conv
    using 1 2 3 4 5 by blast
qed

lemma useFrame_result:
  assumes "ref_current sf = Some geo" and "attributes_ok sf geo" and "store_ok count sf geo h"
    and "useFrame g k time count sf h = (h', k')"
  shows "k' = k + count"
    and "\<And>a. a \<noteq> size_array geo \<Longrightarrow> a \<noteq> color_array geo \<Longrightarrow> h' a = h a"
    and "length (h' (size_array geo)) = count" and "length (h' (color_array geo)) = count * 3"
    and "\<And>i. i < count \<Longrightarrow>
          h' (size_array geo) ! i = Math_fround (value_of (h (sizes_ref sf) ! i) *
            max (3 / 10) (scintillation time (g (k + i)) i (value_of (h (sizes_ref sf) ! i))))"
    and "\<And>i. i < count \<Longrightarrow>
          h' (color_array geo) ! (i * 3) = Math_fround (min 1 (value_of (h (colors_ref sf) ! (i * 3)) *
            (1 + (scintillation time (g (k + i)) i (value_of (h (sizes_ref sf) ! i)) - 1) * (5 / 100)))) \<and>
          h' (color_array geo) ! (i * 3 + 1) = Math_fround (min 1 (value_of (h (colors_ref sf) ! (i * 3 + 1)) *
            (1 - (scintillation time (g (k + i)) i (value_of (h (sizes_ref sf) ! i)) - 1) * (5 / 100) * (3 / 10)))) \<and>
          h' (color_array geo) ! (i * 3 + 2) = Math_fround (min 1 (value_of (h (colors_ref sf) ! (i * 3 + 2)) *
            (1 - (scintillation time (g (k + i)) i (value_of (h (sizes_ref sf) ! i)) - 1) * (5 / 100) * (6 / 10))))"
proof -
  from assms(1,4) have f: "fold (twinkle_star g time sf geo) [0..<count] (h, k) = (h', k')"
    by (simp add: useFrame_def)
  note * = frame_prefix [OF assms(2,3) le_refl, of g time k, unfolded f fst_conv snd_conv]
  from * show "k' = k + count" by blast
  from * show "\<And>a. a \<noteq> size_array geo \<Longrightarrow> a \<noteq> color_array geo \<Longrightarrow> h' a = h a"
    by blast
  from * show "length (h' (size_array geo)) = count" by blast
  from * show "length (h' (color_array geo)) = count * 3" by blast
  from * have all: "\<forall>i<count.
          h' (size_array geo) ! i = Math_fround (value_of (h (sizes_ref sf) ! i) *
            max (3 / 10) (scintillation time (g (k + i)) i (value_of (h (sizes_ref sf) ! i)))) \<and>
          h' (color_array geo) ! (i * 3) = Math_fround (min 1 (value_of (h (colors_ref sf) ! (i * 3)) *
            (1 + (scintillation time (g (k + i)) i (value_of (h (sizes_ref sf) ! i)) - 1) * (5 / 100)))) \<and>
          h' (color_array geo) ! (i * 3 + 1) = Math_fround (min 1 (value_of (h (colors_ref sf) ! (i * 3 + 1)) *
            (1 - (scintillation time (g (k + i)) i (value_of (h (sizes_ref sf) ! i)) - 1) * (5 / 100) * (3 / 10)))) \<and>
          h' (color_array geo) ! (i * 3 + 2) = Math_fround (min 1 (value_of (h (colors_ref sf) ! (i * 3 + 2)) *
            (1 - (scintillation time (g (k + i)) i (value_of (h (sizes_ref sf) ! i)) - 1) * (5 / 100) * (6 / 10))))"
    by blast
  from all show "\<And>i. i < count \<Longrightarrow>
          h' (size_array geo) ! i = Math_fround (value_of (h (sizes_ref sf) ! i) *
            max (3 / 10) (scintillation time (g (k + i)) i (value_of (h (sizes_ref sf) ! i))))"
    by blast
  from all show "\<And>i. i < count \<Longrightarrow>
          h' (color_array geo) ! (i * 3) = Math_fround (min 1 (value_of (h (colors_ref sf) ! (i * 3)) *
            (1 + (scintillation time (g (k + i)) i (value_of (h (sizes_ref sf) ! i)) - 1) * (5 / 100)))) \<and>
          h' (color_array geo) ! (i * 3 + 1) = Math_fround (min 1 (value_of (h (colors_ref sf) ! (i * 3 + 1)) *
            (1 - (scintillation time (g (k + i)) i (value_of (h (sizes_ref sf) ! i)) - 1) * (5 / 100) * (3 / 10)))) \<and>
          h' (color_array geo) ! (i * 3 + 2) = Math_fround (min 1 (value_of (h (colors_ref sf) ! (i * 3 + 2)) *
            (1 - (scintillation time (g (k + i)) i (value_of (h (sizes_ref sf) ! i)) - 1) * (5 / 100) * (6 / 10))))"
    by blast
qed

lemma twinkleIntensity_small: "s \<le> 1 / 2 \<Longrightarrow> twinkleIntensity s = 0"
  by (simp add: twinkleIntensity_def max_def mult_le_0_iff)

lemma scintillation_small: "s \<le> 1 / 2 \<Longrightarrow> scintillation time r i s = 1"
  by (simp add: scintillation_def twinkleIntensity_small)

lemma twinkle_star_elsewhere:
  "a \<noteq> size_array geo \<Longrightarrow> a \<noteq> color_array geo \<Longrightarrow>
   fst (twinkle_star g time sf geo i (h, k)) a = h a"
  unfolding twinkle_star_def by (simp add: Let_def)

lemma twinkle_star_counter: "snd (twinkle_star g time sf geo i (h, k)) = k + 1"
  unfolding twinkle_star_def by (simp add: Let_def)

lemma fold_twinkle_elsewhere:
  "a \<noteq> size_array geo \<Longrightarrow> a \<noteq> color_array geo \<Longrightarrow>
   fst (fold (twinkle_star g time sf geo) xs (h, k)) a = h a"
proof (induction xs arbitrary: h k)
  case Nil
  then show ?case by simp
next
  case (Cons x xs)
  obtain h1 k1 where step: "twinkle_star g time sf geo x (h, k) = (h1, k1)"
    by (cases "twinkle_star g time sf geo x (h, k)")
  with twinkle_star_elsewhere [OF Cons.prems, of g time sf x h k] have "h1 a = h a" by simp
  with Cons.IH [OF Cons.prems, of h1 k1] step show ?case by simp
qed

lemma useFrame_elsewhere:
  assumes "\<forall>geo. ref_current sf = Some geo \<longrightarrow> a \<noteq> size_array geo \<and> a \<noteq> color_array geo"
  shows "fst (useFrame g k time count sf h) a = h a"
  using assms by (cases "ref_current sf") (simp_all add: useFrame_def fold_twinkle_elsewhere)

lemma run_frames_elsewhere:
  assumes "\<forall>geo. ref_current sf = Some geo \<longrightarrow> a \<noteq> size_array geo \<and> a \<noteq> color_array geo"
  shows "fst (run_frames g k ts count sf h) a = h a"
proof (induction ts arbitrary: h k)
  case Nil
  then show ?case by simp
next
  case (Cons time ts)
  obtain h1 k1 where step: "useFrame g k time count sf h = (h1, k1)"
    by (cases "useFrame g k time count sf h")
  with useFrame_elsewhere [OF assms, of g k time count h] have "h1 a = h a" by simp
  with Cons.IH [of k1 h1] step show ?case by simp
qed

lemma fold_twinkle_draws:
  "\<forall>j < length xs. g (k + j) = g' (k + j) \<Longrightarrow>
   fold (twinkle_star g time sf geo) xs (h, k) = fold (twinkle_star g' time sf geo) xs (h, k)"
proof (induction xs arbitrary: h k)
  case Nil
  then show ?case by simp
next
  case (Cons x xs)
  from Cons.prems have "g k = g' k" by force
  then have same: "twinkle_star g time sf geo x (h, k) = twinkle_star g' time sf geo x (h, k)"
    by (simp only: twinkle_star_def prod.case)
  obtain h1 where step: "twinkle_star g' time sf geo x (h, k) = (h1, k + 1)"
    using twinkle_star_counter [of g' time sf geo x h k]
    by (cases "twinkle_star g' time sf geo x (h, k)") simp
  have "\<forall>j < length xs. g (k + 1 + j) = g' (k + 1 + j)"
  proof (intro allI impI)
    fix j assume "j < length xs"
    then have "g (k + Suc j) = g' (k + Suc j)" using Cons.prems by force
    then show "g (k + 1 + j) = g' (k + 1 + j)" by simp
  qed
  from Cons.IH [OF this, of h1] same step show ?case by simp
qed

lemma useFrame_store_ok:
  assumes "ref_current sf = Some geo" and "attributes_ok sf geo" and "store_ok count sf geo h"
    and "useFrame g k time count sf h = (h', k')"
  shows "store_ok count sf geo h'"
proof -
  note r = useFrame_result [OF assms]
  have ne: "sizes_ref sf \<noteq> color_array geo" "colors_ref sf \<noteq> size_array geo"
    using assms(2) by (auto simp: attributes_ok_def)
  have "length (h' (sizes_ref sf)) = count"
    using r(2) [of "sizes_ref sf"] r(3) ne assms(3)
    by (cases "sizes_ref sf = size_array geo") (auto simp: store_ok_def)
  moreover have "length (h' (colors_ref sf)) = count * 3"
    using r(2) [of "colors_ref sf"] r(4) ne assms(3)
    by (cases "colors_ref sf = color_array geo") (auto simp: store_ok_def)
  ultimately show ?thesis using r(3,4) by (simp add: store_ok_def)
qed

lemma useFrame_colors_clamped:
  assumes "ref_current sf = Some geo" and "attributes_ok sf geo" and "store_ok count sf geo h"
    and "useFrame g k time count sf h = (h', k')" and "colors_clamped sf h"
  shows "colors_clamped sf h'"
proof (cases "colors_ref sf = color_array geo")
  case True
  note r = useFrame_result [OF assms(1-4)]
  show ?thesis unfolding colors_clamped_def
  proof (intro allI impI)
    fix j assume "j < length (h' (colors_ref sf))"
    then have j: "j < count * 3" using r(4) True by simp
    then have i: "j div 3 < count" by (simp add: less_mult_imp_div_less)
    have "j mod 3 < 3" by simp
    then consider "j mod 3 = 0" | "j mod 3 = 1" | "j mod 3 = 2" by linarith
    then have "value_of (h' (color_array geo) ! (j div 3 * 3 + j mod 3)) \<le> 1"
      using r(6) [OF i] by cases (simp_all add: value_of_Math_fround fround_le_one)
    then show "value_of (h' (colors_ref sf) ! j) \<le> 1" using True by simp
  qed
next
  case False
  moreover have "colors_ref sf \<noteq> size_array geo"
    using assms(2) by (auto simp: attributes_ok_def)
  ultimately have "h' (colors_ref sf) = h (colors_ref sf)"
    using useFrame_result(2) [OF assms(1-4)] by blast
  with assms(5) show ?thesis by (simp add: colors_clamped_def)
qed

lemma mount_ref: "ref_current (fst (mount b)) =
    Some \<lparr>position_array = 0, color_array = 1, size_array = 2\<rparr>"
  by (simp add: mount_def)

lemma mount_attributes_ok:
  "attributes_ok (fst (mount b)) \<lparr>position_array = 0, color_array = 1, size_array = 2\<rparr>"
  by (simp add: mount_def attributes_ok_def)

lemma mount_store_ok:
  "buffers_ok count b \<Longrightarrow>
   store_ok count (fst (mount b)) \<lparr>position_array = 0, color_array = 1, size_array = 2\<rparr>
     (snd (mount b))"
  by (simp add: mount_def store_ok_def buffers_ok_def)

lemma mount_colors_clamped:
  "\<forall>j < length (colors b). value_of (colors b ! j) \<le> 1 \<Longrightarrow>
   colors_clamped (fst (mount b)) (snd (mount b))"
  by (simp add: mount_def colors_clamped_def)

lemma run_frames_invariant:
  assumes "ref_current sf = Some geo" and "attributes_ok sf geo"
  shows "store_ok count sf geo h \<Longrightarrow> colors_clamped sf h \<Longrightarrow>
         store_ok count sf geo (fst (run_frames g k ts count sf h)) \<and>
         colors_clamped sf (fst (run_frames g k ts count sf h))"
proof (induction ts arbitrary: h k)
  case Nil
  then show ?case by simp
next
  case (Cons time ts)
  obtain h1 k1 where step: "useFrame g k time count sf h = (h1, k1)"
    by (cases "useFrame g k time count sf h")
  from useFrame_store_ok [OF assms Cons.prems(1) step]
    useFrame_colors_clamped [OF assms Cons.prems(1) step Cons.prems(2)]
    Cons.IH [of h1 k1] step
  show ?case by simp
qed

text \<open>
  The hypotheses of the theorems on frames hold in every state of the component: after
  a generation and any run of frames.
\<close>

lemma reachable_states_well_formed:
  assumes "valid_rng g" and "generateStars g k0 count = Some (b, k)"
  shows "store_ok count (fst (mount b)) \<lparr>position_array = 0, color_array = 1, size_array = 2\<rparr>
           (fst (run_frames g k ts count (fst (mount b)) (snd (mount b)))) \<and>
         colors_clamped (fst (mount b))
           (fst (run_frames g k ts count (fst (mount b)) (snd (mount b))))"
proof -
  from assms(2) have "star_loop g count 0 k0 (new_buffers count) = Some (b, k)"
    by (simp add: generateStars_def)
  from star_loop_partial [OF this] assms(1)
  have ok: "buffers_ok count b" and stars: "\<forall>j<count. star_ok count b j"
    by (simp_all add: new_buffers_ok)
  have "\<forall>j < length (colors b). value_of (colors b ! j) \<le> 1"
    using colors_of_stars [OF stars] ok by (simp add: buffers_ok_def)
  from run_frames_invariant [OF mount_ref mount_attributes_ok mount_store_ok [OF ok]
      mount_colors_clamped [OF this]]
  show ?thesis .
qed

section \<open>Facts on the example inputs\<close>

lemma example_buffers_ok: "buffers_ok 1 example_buffers"
  by (simp add: buffers_ok_def example_buffers_def)

lemma example_colors_clamped:
  "colors_clamped (fst (mount example_buffers)) (snd (mount example_buffers))"
  by (rule mount_colors_clamped)
    (simp add: example_buffers_def less_Suc_eq numeral_3_eq_3 value_of_Math_fround fround_le_one)

lemma fair_eventually_zero:
  assumes "\<And>n. m \<le> n \<Longrightarrow> g n = 0"
  shows "fair g"
  unfolding fair_def
proof
  fix k
  have "shouldPlace g (k + 3 * m)"
    using assms [of "k + 3 * m"] assms [of "k + 3 * m + 1"]
    by (simp add: shouldPlace_def add_pos_pos)
  then have "\<not> skipped g (k + 3 * m)" by (simp add: skipped_def)
  then show "\<exists>n. \<not> skipped g (k + 3 * n)" by blast
qed

lemma valid_retry_rng: "valid_rng retry_rng"
  by (simp add: valid_rng_def retry_rng_def)

lemma fair_retry_rng: "fair retry_rng"
  by (rule fair_eventually_zero [of 3]) (simp add: retry_rng_def)

lemma skipped_retry_rng: "skipped retry_rng 0"
  by (simp add: skipped_def shouldPlace_def retry_rng_def)

lemma valid_diagonal_rng: "valid_rng diagonal_rng"
  by (simp add: valid_rng_def diagonal_rng_def)

lemma fair_diagonal_rng: "fair diagonal_rng"
  by (rule fair_eventually_zero [of 5]) (simp add: diagonal_rng_def)

text \<open>
  The generation of one star from \<open>retry_rng\<close>: the attempt at call 0 is skipped,
  the attempt at call 3 places the star.
\<close>

lemma generateStars_retry_rng: "generateStars retry_rng 0 1 = Some (example_buffers, 12)"
proof -
  have sp: "shouldPlace retry_rng 3"
    by (simp add: shouldPlace_def retry_rng_def add_pos_pos)
  then have ns: "\<not> skipped retry_rng 3" by (simp add: skipped_def)
  have "star_loop retry_rng 1 0 0 (new_buffers 1) = star_loop retry_rng 1 0 3 (new_buffers 1)"
    using star_loop_retry [of 0 1 retry_rng 0 "new_buffers 1"] skipped_retry_rng by simp
  also have "\<dots> = star_loop retry_rng 1 1 12 (place_star retry_rng 1 0 5 (new_buffers 1))"
    using star_loop_place [of 0 1 retry_rng 3 "new_buffers 1"] sp ns by simp
  also have "\<dots> = Some (place_star retry_rng 1 0 5 (new_buffers 1), 12)"
    by (simp add: star_loop_done)
  also have "place_star retry_rng 1 0 5 (new_buffers 1) = example_buffers"
    by (simp add: place_star_def star_radius_def finalSize_def select_type_def stellarTypes_def
        mk_type_def retry_rng_def new_buffers_def numeral_3_eq_3 example_buffers_def)
  finally show ?thesis by (simp add: generateStars_def)
qed

lemma generateStars_diagonal_rng:
  "generateStars diagonal_rng 0 1 = Some (diagonal_buffers, 9)"
proof -
  have sp: "shouldPlace diagonal_rng 0"
    by (simp add: shouldPlace_def diagonal_rng_def)
  then have ns: "\<not> skipped diagonal_rng 0" by (simp add: skipped_def)
  have "star_loop diagonal_rng 1 0 0 (new_buffers 1)
      = star_loop diagonal_rng 1 1 9 (place_star diagonal_rng 1 0 2 (new_buffers 1))"
    using star_loop_place [of 0 1 diagonal_rng 0 "new_buffers 1"] sp ns
    by (simp add: numeral_2_eq_2)
  also have "\<dots> = Some (place_star diagonal_rng 1 0 2 (new_buffers 1), 9)"
    by (simp add: star_loop_done)
  also have "place_star diagonal_rng 1 0 2 (new_buffers 1) = diagonal_buffers"
    by (simp add: place_star_def star_radius_def finalSize_def select_type_def stellarTypes_def
        mk_type_def diagonal_rng_def new_buffers_def numeral_3_eq_3 example_buffers_def
        diagonal_buffers_def cos_45 sin_45)
  finally show ?thesis by (simp add: generateStars_def)
qed

lemma position_norm_diagonal:
  "position_norm diagonal_buffers 0 = sqrt (2 * (9268190 / 2 ^ 18)\<^sup>2)"
  by (simp add: position_norm_def diagonal_buffers_def example_buffers_def value_of_Math_fround
      fround_diagonal fround_zero)

section \<open>Facts on the nebula raster\<close>

lemma nebula_alpha_range: "\<exists>a. nebula_alpha x y = Some a \<and> 0 \<le> a \<and> a \<le> 255"
  by (simp add: nebula_alpha_def js_pow_def)

lemma to_uint8_clamp_le: "to_uint8_clamp v \<le> 255"
proof (cases v)
  case None
  then show ?thesis by (simp add: to_uint8_clamp_def)
next
  case (Some number)
  define c where "c = min 255 (max 0 number)"
  have c: "0 \<le> c" "c \<le> 255" by (simp_all add: c_def)
  then have f: "0 \<le> \<lfloor>c\<rfloor>" "\<lfloor>c\<rfloor> \<le> 255" by (simp_all add: floor_le_iff le_floor_iff)
  have "\<lfloor>c\<rfloor> \<le> 254" if "real_of_int \<lfloor>c\<rfloor> + 1 / 2 \<le> c"
  proof -
    from that c(2) have "real_of_int \<lfloor>c\<rfloor> < 255" by linarith
    then show ?thesis by linarith
  qed
  with f show ?thesis
    unfolding to_uint8_clamp_def Some option.case c_def [symmetric] Let_def
    by (auto simp: nat_le_iff)
qed

lemma put_pixel_eq:
  "put_pixel ty y x d = d
     [(y * 512 + x) * 4 := (if ty = ''dark'' then 20 else 180),
      (y * 512 + x) * 4 + 1 := (if ty = ''dark'' then 15 else 200),
      (y * 512 + x) * 4 + 2 := (if ty = ''dark'' then 10 else 255),
      (y * 512 + x) * 4 + 3 := to_uint8_clamp (nebula_alpha x y)]"
  by (simp add: put_pixel_def Let_def)

lemma nth_upd4:
  "i + 3 < length d \<Longrightarrow>
   d[i := a, i + 1 := b, i + 2 := c, i + 3 := e] ! j =
     (if j = i then a else if j = i + 1 then b else if j = i + 2 then c
      else if j = i + 3 then e else d ! j)"
  by (simp add: nth_upd)

lemma put_pixel_nth:
  assumes "(y * 512 + x) * 4 + 3 < length d"
  shows "put_pixel ty y x d ! j =
     (if j = (y * 512 + x) * 4 then (if ty = ''dark'' then 20 else 180)
      else if j = (y * 512 + x) * 4 + 1 then (if ty = ''dark'' then 15 else 200)
      else if j = (y * 512 + x) * 4 + 2 then (if ty = ''dark'' then 10 else 255)
      else if j = (y * 512 + x) * 4 + 3 then to_uint8_clamp (nebula_alpha x y)
      else d ! j)"
  unfolding put_pixel_eq by (rule nth_upd4 [OF assms])

lemma put_pixel_length: "length (put_pixel ty y x d) = length d"
  by (simp add: put_pixel_eq)

lemma row_fold:
  fixes ty :: string and y :: nat and d :: "nat list"
  defines "row \<equiv> \<lambda>n. fold (\<lambda>x data. put_pixel ty y x data) [0..<n] d"
  assumes len: "(y * 512 + 512) * 4 \<le> length d"
  shows "n \<le> 512 \<Longrightarrow>
     length (row n) = length d \<and>
     (\<forall>j. j < y * 512 * 4 \<or> (y * 512 + n) * 4 \<le> j \<longrightarrow> row n ! j = d ! j) \<and>
     (\<forall>x<n. row n ! ((y * 512 + x) * 4) = (if ty = ''dark'' then 20 else 180) \<and>
            row n ! ((y * 512 + x) * 4 + 1) = (if ty = ''dark'' then 15 else 200) \<and>
            row n ! ((y * 512 + x) * 4 + 2) = (if ty = ''dark'' then 10 else 255) \<and>
            row n ! ((y * 512 + x) * 4 + 3) = to_uint8_clamp (nebula_alpha x y))"
proof (induction n)
  case 0
  then show ?case by (simp add: row_def)
next
  case (Suc n)
  then have n: "n < 512" by simp
  then have "n \<le> 512" by simp
  note IH = Suc.IH [OF this]
  from IH have l: "length (row n) = length d" by blast
  from IH have out: "\<And>j. j < y * 512 * 4 \<or> (y * 512 + n) * 4 \<le> j \<Longrightarrow> row n ! j = d ! j"
    by blast
  from IH have done_px: "\<And>x. x < n \<Longrightarrow>
            row n ! ((y * 512 + x) * 4) = (if ty = ''dark'' then 20 else 180) \<and>
            row n ! ((y * 512 + x) * 4 + 1) = (if ty = ''dark'' then 15 else 200) \<and>
            row n ! ((y * 512 + x) * 4 + 2) = (if ty = ''dark'' then 10 else 255) \<and>
            row n ! ((y * 512 + x) * 4 + 3) = to_uint8_clamp (nebula_alpha x y)"
    by blast
  have step: "row (Suc n) = put_pixel ty y n (row n)" by (simp add: row_def)
  have inside: "(y * 512 + n) * 4 + 3 < length (row n)" using n len l by simp
  note nth = put_pixel_nth [OF inside, of ty, folded step]
  have 1: "length (row (Suc n)) = length d" by (simp add: step put_pixel_length l)
  have 2: "\<forall>j. j < y * 512 * 4 \<or> (y * 512 + Suc n) * 4 \<le> j \<longrightarrow> row (Suc n) ! j = d ! j"
  proof (intro allI impI)
    fix j assume j: "j < y * 512 * 4 \<or> (y * 512 + Suc n) * 4 \<le> j"
    then have "j \<noteq> (y * 512 + n) * 4" "j \<noteq> (y * 512 + n) * 4 + 1"
      "j \<noteq> (y * 512 + n) * 4 + 2" "j \<noteq> (y * 512 + n) * 4 + 3" by arith+
    then have "row (Suc n) ! j = row n ! j" by (simp only: nth if_False)
    also have "\<dots> = d ! j" using j by (intro out) arith
    finally show "row (Suc n) ! j = d ! j" .
  qed
  have 3: "\<forall>x<Suc n. row (Suc n) ! ((y * 512 + x) * 4) = (if ty = ''dark'' then 20 else 180) \<and>
            row (Suc n) ! ((y * 512 + x) * 4 + 1) = (if ty = ''dark'' then 15 else 200) \<and>
            row (Suc n) ! ((y * 512 + x) * 4 + 2) = (if ty = ''dark'' then 10 else 255) \<and>
            row (Suc n) ! ((y * 512 + x) * 4 + 3) = to_uint8_clamp (nebula_alpha x y)"
  proof (intro allI impI)
    fix x assume "x < Suc n"
    show "row (Suc n) ! ((y * 512 + x) * 4) = (if ty = ''dark'' then 20 else 180) \<and>
            row (Suc n) ! ((y * 512 + x) * 4 + 1) = (if ty = ''dark'' then 15 else 200) \<and>
            row (Suc n) ! ((y * 512 + x) * 4 + 2) = (if ty = ''dark'' then 10 else 255) \<and>
            row (Suc n) ! ((y * 512 + x) * 4 + 3) = to_uint8_clamp (nebula_alpha x y)"
    proof (cases "x = n")
      case True
      show ?thesis unfolding True nth by simp
    next
      case False
      with \<open>x < Suc n\<close> have x: "x < n" by simp
      have same: "row (Suc n) ! ((y * 512 + x) * 4 + c) = row n ! ((y * 512 + x) * 4 + c)"
        if "c < 4" for c
      proof -
        from x that have "(y * 512 + x) * 4 + c \<noteq> (y * 512 + n) * 4"
          "(y * 512 + x) * 4 + c \<noteq> (y * 512 + n) * 4 + 1"
          "(y * 512 + x) * 4 + c \<noteq> (y * 512 + n) * 4 + 2"
          "(y * 512 + x) * 4 + c \<noteq> (y * 512 + n) * 4 + 3" by arith+
        then show ?thesis by (simp only: nth if_False)
      qed
      from same [of 0] same [of 1] same [of 2] same [of 3] done_px [OF x]
      show ?thesis by simp
    qed
  qed
  from 1 2 3 show ?case by blast
qed

lemma raster_fold:
  fixes ty :: string and d0 :: "nat list"
  defines "rows \<equiv> \<lambda>m.
    fold (\<lambda>y data. fold (\<lambda>x data. put_pixel ty y x data) [0..<512] data) [0..<m] d0"
  assumes len: "length d0 = 512 * 512 * 4"
  shows "m \<le> 512 \<Longrightarrow>
     length (rows m) = length d0 \<and>
     (\<forall>y<m. \<forall>x<512.
        rows m ! ((y * 512 + x) * 4) = (if ty = ''dark'' then 20 else 180) \<and>
        rows m ! ((y * 512 + x) * 4 + 1) = (if ty = ''dark'' then 15 else 200) \<and>
        rows m ! ((y * 512 + x) * 4 + 2) = (if ty = ''dark'' then 10 else 255) \<and>
        rows m ! ((y * 512 + x) * 4 + 3) = to_uint8_clamp (nebula_alpha x y))"
proof (induction m)
  case 0
  have "rows 0 = d0" unfolding rows_def by (simp only: upt_0 fold.simps id_apply)
  then show ?case by simp
next
  case (Suc m)
  then have m: "m < 512" by simp
  then have "m \<le> 512" by simp
  note IH = Suc.IH [OF this]
  from IH have l: "length (rows m) = length d0" by blast
  from IH have above: "\<And>y x. y < m \<Longrightarrow> x < 512 \<Longrightarrow>
        rows m ! ((y * 512 + x) * 4) = (if ty = ''dark'' then 20 else 180) \<and>
        rows m ! ((y * 512 + x) * 4 + 1) = (if ty = ''dark'' then 15 else 200) \<and>
        rows m ! ((y * 512 + x) * 4 + 2) = (if ty = ''dark'' then 10 else 255) \<and>
        rows m ! ((y * 512 + x) * 4 + 3) = to_uint8_clamp (nebula_alpha x y)"
    by blast
  have "[0..<Suc m] = [0..<m] @ [m]" by (rule upt_Suc_append) simp
  then have step: "rows (Suc m) = fold (\<lambda>x data. put_pixel ty m x data) [0..<512] (rows m)"
    unfolding rows_def by (simp only: fold_append fold.simps comp_apply id_apply)
  have "length (rows m) = 512 * 512 * 4" using l len by (rule trans)
  then have room: "(m * 512 + 512) * 4 \<le> length (rows m)" using m by simp
  note row = row_fold [OF room le_refl, of ty, folded step]
  from row have "length (rows (Suc m)) = length (rows m)" by blast
  with l have 1: "length (rows (Suc m)) = length d0" by (rule trans [rotated])
  from row have out: "\<And>j. j < m * 512 * 4 \<Longrightarrow> rows (Suc m) ! j = rows m ! j" by blast
  from row have this_row: "\<And>x. x < 512 \<Longrightarrow>
        rows (Suc m) ! ((m * 512 + x) * 4) = (if ty = ''dark'' then 20 else 180) \<and>
        rows (Suc m) ! ((m * 512 + x) * 4 + 1) = (if ty = ''dark'' then 15 else 200) \<and>
        rows (Suc m) ! ((m * 512 + x) * 4 + 2) = (if ty = ''dark'' then 10 else 255) \<and>
        rows (Suc m) ! ((m * 512 + x) * 4 + 3) = to_uint8_clamp (nebula_alpha x m)"
    by blast
  have 2: "\<forall>y<Suc m. \<forall>x<512.
        rows (Suc m) ! ((y * 512 + x) * 4) = (if ty = ''dark'' then 20 else 180) \<and>
        rows (Suc m) ! ((y * 512 + x) * 4 + 1) = (if ty = ''dark'' then 15 else 200) \<and>
        rows (Suc m) ! ((y * 512 + x) * 4 + 2) = (if ty = ''dark'' then 10 else 255) \<and>
        rows (Suc m) ! ((y * 512 + x) * 4 + 3) = to_uint8_clamp (nebula_alpha x y)"
  proof (intro allI impI)
    fix y x :: nat assume "y < Suc m" and x: "x < 512"
    show "rows (Suc m) ! ((y * 512 + x) * 4) = (if ty = ''dark'' then 20 else 180) \<and>
        rows (Suc m) ! ((y * 512 + x) * 4 + 1) = (if ty = ''dark'' then 15 else 200) \<and>
        rows (Suc m) ! ((y * 512 + x) * 4 + 2) = (if ty = ''dark'' then 10 else 255) \<and>
        rows (Suc m) ! ((y * 512 + x) * 4 + 3) = to_uint8_clamp (nebula_alpha x y)"
    proof (cases "y = m")
      case True
      with this_row [OF x] show ?thesis by simp
    next
      case False
      with \<open>y < Suc m\<close> have y: "y < m" by simp
      have "rows (Suc m) ! ((y * 512 + x) * 4 + c) = rows m ! ((y * 512 + x) * 4 + c)"
        if "c < 4" for c
      proof (rule out)
        from y have "(y + 1) * 512 * 4 \<le> m * 512 * 4" by simp
        moreover from x that have "(y * 512 + x) * 4 + c < (y + 1) * 512 * 4" by simp
        ultimately show "(y * 512 + x) * 4 + c < m * 512 * 4" by (rule less_le_trans [rotated])
      qed
      from this [of 0] this [of 1] this [of 2] this [of 3] above [OF y x]
      show ?thesis by simp
    qed
  qed
  from 1 2 show ?case by blast
qed

section \<open>The claims\<close>

text \<open>
  C1, as stated, fails: the scintillation factor also depends on the value that
  \<^verbatim>\<open>Math.random()\<close> returns in line 108. At time \<open>\<pi>/2\<close>, for star 0 of base size
  1.5, the factor is 1.3 when the call returns 0 and 1 when it returns 1/3, and the
  frame stores the size 1.95, rounded to binary32, in the first case and 1.5 in the
  second.
\<close>

theorem twinkle_depends_on_random_counterexample:
  "scintillation (pi / 2) 0 0 (3 / 2) = 13 / 10 \<and>
   scintillation (pi / 2) (1 / 3) 0 (3 / 2) = 1 \<and>
   value_of (fst (useFrame zero_rng 0 (pi / 2) 1 (fst (mount bright_buffers))
     (snd (mount bright_buffers))) 2 ! 0) = 16357786 / 2 ^ 23 \<and>
   value_of (fst (useFrame third_rng 0 (pi / 2) 1 (fst (mount bright_buffers))
     (snd (mount bright_buffers))) 2 ! 0) = 3 / 2"
proof -
  let ?sf = "fst (mount bright_buffers)" and ?h = "snd (mount bright_buffers)"
  have s0: "scintillation (pi / 2) 0 0 (3 / 2) = 13 / 10"
    and s1: "scintillation (pi / 2) (1 / 3) 0 (3 / 2) = 1"
    by (simp_all add: scintillation_def twinkleIntensity_def)
  have ok: "buffers_ok 1 bright_buffers"
    by (simp add: buffers_ok_def bright_buffers_def example_buffers_def)
  have size: "value_of (?h (sizes_ref ?sf) ! 0) = 3 / 2"
    by (simp add: mount_def bright_buffers_def value_of_Math_fround fround_values)
  have i: "(0::nat) < 1" by simp
  have "value_of (fst (useFrame g 0 (pi / 2) 1 ?sf ?h) 2 ! 0)
      = fround (3 / 2 * max (3 / 10) (scintillation (pi / 2) (g 0) 0 (3 / 2)))" for g
    using useFrame_result(5) [OF mount_ref mount_attributes_ok mount_store_ok [OF ok]
        prod.collapse [symmetric] i, of g 0 "pi / 2"]
    by (simp add: size value_of_Math_fround)
  from this [of zero_rng] this [of third_rng] s0 s1 show ?thesis
    by (simp add: zero_rng_def third_rng_def fround_values)
qed

text \<open>
  C1, amended: a frame is determined by the elapsed time, the star count, the buffers
  and the values that the \<open>count\<close> calls of \<^verbatim>\<open>Math.random()\<close> of the frame return:
  two random sources that agree on these calls give the same sizes and colours.
\<close>

theorem frame_determined_by_draws:
  assumes "\<forall>j<count. g (k + j) = g' (k + j)"
  shows "useFrame g k time count sf h = useFrame g' k time count sf h"
proof (cases "ref_current sf")
  case None
  then show ?thesis by (simp add: useFrame_def)
next
  case (Some geo)
  with fold_twinkle_draws [of "[0..<count]" g k g' time sf geo h] assms
  show ?thesis by (simp add: useFrame_def)
qed

theorem frame_determined_by_draws_witness:
  "zero_rng 0 = zero_then_half 0 \<and> zero_rng 1 \<noteq> zero_then_half 1 \<and>
   useFrame zero_rng 0 0 1 (fst (mount example_buffers)) (snd (mount example_buffers)) =
   useFrame zero_then_half 0 0 1 (fst (mount example_buffers)) (snd (mount example_buffers))"
proof -
  have h: "\<forall>j<1. zero_rng (0 + j) = zero_then_half (0 + j)"
    by (simp add: zero_rng_def zero_then_half_def)
  from frame_determined_by_draws [OF h] show ?thesis
    by (simp add: zero_rng_def zero_then_half_def)
qed

text \<open>
  C2, as stated, fails: the coordinates of a position are stored in binary32 cells,
  each rounded on its own, and the norm of the stored position can leave the radius
  bounds of its tier. With the draws of \<open>diagonal_rng\<close>, all of them in \<open>[0, 1)\<close>,
  the one star is placed at radius 50 in the direction \<open>(1, 1, 0)\<close>; both stored
  coordinates are \<open>9268190 / 2 ^ 18\<close>, below \<open>25 * sqrt 2\<close>, and the norm of the stored
  position is below 50.
\<close>

theorem stored_norm_below_tier_counterexample:
  "valid_rng diagonal_rng \<and>
   generateStars diagonal_rng 0 1 = Some (diagonal_buffers, 9) \<and>
   value_of (positions diagonal_buffers ! 0) = 9268190 / 2 ^ 18 \<and>
   value_of (positions diagonal_buffers ! 1) = 9268190 / 2 ^ 18 \<and>
   value_of (positions diagonal_buffers ! 2) = 0 \<and>
   tier_min 1 0 = 50 \<and>
   position_norm diagonal_buffers 0 < tier_min 1 0"
proof -
  have "2 * (9268190 / 2 ^ 18)\<^sup>2 < (50::real)\<^sup>2" by (simp add: power2_eq_square)
  then have "sqrt (2 * (9268190 / 2 ^ 18)\<^sup>2) < sqrt (50\<^sup>2)"
    by (simp only: real_sqrt_less_iff)
  then have "position_norm diagonal_buffers 0 < 50"
    by (simp add: position_norm_diagonal)
  then show ?thesis
    using valid_diagonal_rng generateStars_diagonal_rng
    by (simp add: tier_min_def diagonal_buffers_def example_buffers_def value_of_Math_fround
        fround_diagonal fround_zero)
qed

text \<open>
  C2, amended: for every star count \<open>N\<close> and every random sequence with values in
  \<open>[0, 1)\<close>, whatever the generation returns is a positions and a colors buffer of
  \<open>3 * N\<close> cells and a sizes and a magnitudes buffer of \<open>N\<close> cells; every colour
  channel is in \<open>[0, 1]\<close>, and the norm of the stored position of star \<open>i\<close> is within
  the radius bounds of its tier up to a relative error of \<open>2 ^ - 23\<close>, the bounds being
  \<open>[50, 150]\<close> for \<open>i < 0.1 N\<close>, \<open>[150, 450]\<close> for the further \<open>i < 0.3 N\<close> and
  \<open>[400, 1200]\<close> for the rest. The generation returns when the sequence is fair.
\<close>

theorem generated_buffers_well_formed:
  assumes "valid_rng g"
  shows "(fair g \<longrightarrow> (\<exists>b k'. generateStars g k N = Some (b, k'))) \<and>
         (\<forall>b k'. generateStars g k N = Some (b, k') \<longrightarrow>
            length (positions b) = 3 * N \<and> length (colors b) = 3 * N \<and>
            length (sizes b) = N \<and> length (magnitudes b) = N \<and>
            (\<forall>j < 3 * N. 0 \<le> value_of (colors b ! j) \<and> value_of (colors b ! j) \<le> 1) \<and>
            (\<forall>i<N. tier_min N i * (1 - 1 / 2 ^ 23) \<le> position_norm b i \<and>
                   position_norm b i \<le> tier_max N i * (1 + 1 / 2 ^ 23)))"
proof -
  have returns: "\<exists>b k'. generateStars g k N = Some (b, k')" if "fair g"
    using star_loop_total [OF that, of 0 N "new_buffers N" k]
    by (auto simp: generateStars_def new_buffers_ok)
  have result: "length (positions b) = 3 * N \<and> length (colors b) = 3 * N \<and>
            length (sizes b) = N \<and> length (magnitudes b) = N \<and>
            (\<forall>j < 3 * N. 0 \<le> value_of (colors b ! j) \<and> value_of (colors b ! j) \<le> 1) \<and>
            (\<forall>i<N. tier_min N i * (1 - 1 / 2 ^ 23) \<le> position_norm b i \<and>
                   position_norm b i \<le> tier_max N i * (1 + 1 / 2 ^ 23))"
    if "generateStars g k N = Some (b, k')" for b k'
  proof -
    from that have "star_loop g N 0 k (new_buffers N) = Some (b, k')"
      by (simp add: generateStars_def)
    from star_loop_partial [OF this] assms
    have ok: "buffers_ok N b" and stars: "\<forall>j<N. star_ok N b j"
      by (simp_all add: new_buffers_ok)
    from stars have "\<forall>j < 3 * N. 0 \<le> value_of (colors b ! j) \<and> value_of (colors b ! j) \<le> 1"
      using colors_of_stars [of N b] by (simp add: mult.commute)
    moreover from stars
    have "\<forall>i<N. tier_min N i * (1 - 1 / 2 ^ 23) \<le> position_norm b i \<and>
                position_norm b i \<le> tier_max N i * (1 + 1 / 2 ^ 23)"
      by (simp add: star_ok_def)
    ultimately show ?thesis
      using ok by (simp add: buffers_ok_def)
  qed
  from returns result show ?thesis by blast
qed

theorem generated_buffers_well_formed_witness:
  "valid_rng diagonal_rng \<and> fair diagonal_rng \<and>
   generateStars diagonal_rng 0 1 = Some (diagonal_buffers, 9) \<and>
   length (positions diagonal_buffers) = 3 \<and> length (colors diagonal_buffers) = 3 \<and>
   length (sizes diagonal_buffers) = 1 \<and> length (magnitudes diagonal_buffers) = 1 \<and>
   0 \<le> value_of (colors diagonal_buffers ! 2) \<and> value_of (colors diagonal_buffers ! 2) \<le> 1 \<and>
   50 * (1 - 1 / 2 ^ 23) \<le> position_norm diagonal_buffers 0 \<and>
   position_norm diagonal_buffers 0 \<le> 150 * (1 + 1 / 2 ^ 23)"
  using generated_buffers_well_formed [OF valid_diagonal_rng, of 0 1]
    valid_diagonal_rng fair_diagonal_rng generateStars_diagonal_rng
  by (simp add: tier_min_def tier_max_def)

text \<open>
  C3, as stated, fails: with a random source that returns 0.5 at every call, every
  attempt is skipped, and the generation of one star never returns.
\<close>

theorem generation_diverges_counterexample: "generateStars half_rng 0 1 = None"
proof (cases "generateStars half_rng 0 1")
  case None
  then show ?thesis .
next
  case (Some r)
  then show ?thesis
    using star_loop_half_rng [of half_rng 1 0 0 "new_buffers 1" r]
    by (simp add: generateStars_def)
qed

text \<open>
  C3, amended: for every \<open>count\<close>, when the random sequence is fair (no run of
  retries is endless), the generation returns buffers of the lengths that \<open>count\<close>
  gives, in which every star index below \<open>count\<close> has been written by the loop body:
  a skipped attempt is tried again for the same index and leaves no index unfilled.
  With draws in \<open>[0, 1)\<close> no star is left at the origin, where a new array has it.
\<close>

theorem generation_terminates_when_fair:
  assumes "fair g"
  shows "\<exists>b k'. generateStars g k count = Some (b, k') \<and>
           length (positions b) = count * 3 \<and> length (colors b) = count * 3 \<and>
           length (sizes b) = count \<and> length (magnitudes b) = count \<and>
           (\<forall>i<count. written g count b i) \<and>
           (valid_rng g \<longrightarrow> (\<forall>i<count. 0 < position_norm b i))"
proof -
  from star_loop_total [OF assms, of 0 count "new_buffers count" k]
  obtain b k' where run: "star_loop g count 0 k (new_buffers count) = Some (b, k')"
    and ok: "buffers_ok count b" and w: "\<forall>i<count. written g count b i"
    by (auto simp: new_buffers_ok)
  have "0 < position_norm b i" if g: "valid_rng g" and i: "i < count" for i
  proof -
    from star_loop_partial [OF run] g have "star_ok count b i"
      using i by (simp add: new_buffers_ok)
    then have "tier_min count i * (1 - 1 / 2 ^ 23) \<le> position_norm b i"
      by (simp add: star_ok_def)
    moreover have "0 < tier_min count i * (1 - 1 / 2 ^ 23)"
      by (simp add: tier_min_def)
    ultimately show ?thesis by linarith
  qed
  with run ok w show ?thesis
    by (auto simp: generateStars_def buffers_ok_def)
qed

theorem generation_terminates_when_fair_witness:
  "fair retry_rng \<and> valid_rng retry_rng \<and> skipped retry_rng 0 \<and>
   generateStars retry_rng 0 1 = Some (example_buffers, 12) \<and>
   length (positions example_buffers) = 3 \<and> length (sizes example_buffers) = 1 \<and>
   written retry_rng 1 example_buffers 0 \<and>
   0 < position_norm example_buffers 0"
  using generation_terminates_when_fair [OF fair_retry_rng, of 0 1]
    fair_retry_rng valid_retry_rng skipped_retry_rng generateStars_retry_rng
  by simp




text \<open>
  C5: the eight weights of the table are 0.75, 0.12, 0.08, 0.03, 0.015, 0.003, 0.001 and
  0.001 and sum to 1, so that the cumulative sampling covers the unit interval: for
  every \<open>rand\<close> up to 1 the selection loop breaks at an entry of the table, and its
  result does not depend on the initial value of \<^verbatim>\<open>selectedType\<close>.
\<close>

theorem stellar_weights_cover_unit_interval:
  assumes "rand \<le> 1"
  shows "map weight stellarTypes =
           [75 / 100, 12 / 100, 8 / 100, 3 / 100, 15 / 1000, 3 / 1000, 1 / 1000, 1 / 1000] \<and>
         sum_list (map weight stellarTypes) = 1 \<and>
         select_loop rand 0 stellarTypes d = select_loop rand 0 stellarTypes d' \<and>
         select_loop rand 0 stellarTypes d \<in> set stellarTypes"
  using assms by (simp add: stellarTypes_def mk_type_def Let_def)

theorem stellar_weights_cover_unit_interval_witness:
  "(999 / 1000 :: real) \<le> 1 \<and>
   sum_list (map weight stellarTypes) = 1 \<and>
   select_loop (999 / 1000) 0 stellarTypes (mk_type 0 0 0 0 0) = mk_type (85 / 100) (9 / 10) 1 (1 / 1000) 3"
  using stellar_weights_cover_unit_interval
    [of "999 / 1000" "mk_type 0 0 0 0 0" "mk_type 0 0 0 0 0"]
  by (simp add: stellarTypes_def mk_type_def Let_def)

text \<open>
  C6: the twinkle intensity does not decrease with the base size.
\<close>

theorem twinkle_intensity_monotone:
  assumes "s1 \<le> s2"
  shows "twinkleIntensity s1 \<le> twinkleIntensity s2"
  using assms by (auto simp: twinkleIntensity_def max_def)

theorem twinkle_intensity_monotone_witness:
  "(4 / 10 :: real) \<le> 2 \<and> twinkleIntensity (4 / 10) \<le> twinkleIntensity 2 \<and>
   twinkleIntensity (4 / 10) = 0 \<and> twinkleIntensity 2 = 45 / 100"
  using twinkle_intensity_monotone [of "4 / 10" 2]
  by (simp add: twinkleIntensity_def)

text \<open>
  C7: a run of frames changes no array but those of the size and the color attribute
  of the geometry; the positions and the magnitudes buffer stay as they are.
\<close>

theorem frames_keep_positions_and_magnitudes:
  assumes "\<forall>geo. ref_current sf = Some geo \<longrightarrow> attributes_ok sf geo"
  shows "(\<forall>a. (\<forall>geo. ref_current sf = Some geo \<longrightarrow> a \<noteq> size_array geo \<and> a \<noteq> color_array geo)
            \<longrightarrow> fst (run_frames g k ts count sf h) a = h a) \<and>
         fst (run_frames g k ts count sf h) (positions_ref sf) = h (positions_ref sf) \<and>
         fst (run_frames g k ts count sf h) (magnitudes_ref sf) = h (magnitudes_ref sf)"
proof -
  have "\<forall>geo. ref_current sf = Some geo \<longrightarrow>
          positions_ref sf \<noteq> size_array geo \<and> positions_ref sf \<noteq> color_array geo"
    and "\<forall>geo. ref_current sf = Some geo \<longrightarrow>
          magnitudes_ref sf \<noteq> size_array geo \<and> magnitudes_ref sf \<noteq> color_array geo"
    using assms by (auto simp: attributes_ok_def)
  then show ?thesis by (simp add: run_frames_elsewhere)
qed

theorem frames_keep_positions_and_magnitudes_witness:
  "ref_current (fst (mount example_buffers)) =
     Some \<lparr>position_array = 0, color_array = 1, size_array = 2\<rparr> \<and>
   fst (run_frames zero_rng 9 [0, 1 / 60] 1 (fst (mount example_buffers))
     (snd (mount example_buffers))) 0 = [Math_fround 0, Math_fround 0, Math_fround (- 50)] \<and>
   fst (run_frames zero_rng 9 [0, 1 / 60] 1 (fst (mount example_buffers))
     (snd (mount example_buffers))) 3 = [Math_fround 0]"
proof -
  have h: "\<forall>geo. ref_current (fst (mount example_buffers)) = Some geo \<longrightarrow>
      attributes_ok (fst (mount example_buffers)) geo"
    using mount_attributes_ok [of example_buffers] by (simp add: mount_ref)
  from frames_keep_positions_and_magnitudes [OF h, of zero_rng 9 "[0, 1 / 60]" 1
      "snd (mount example_buffers)"]
  show ?thesis by (simp add: mount_def example_buffers_def)
qed

text \<open>
  C8: for every pixel \<open>(x, y)\<close> of the 512 by 512 raster the value of \<^verbatim>\<open>alpha\<close>
  is a number, not NaN, in \<open>[0, 255]\<close>; the three colour bytes of the pixel are those
  of the palette of the nebula type, \<open>(20, 15, 10)\<close> for \<^verbatim>\<open>'dark'\<close> and
  \<open>(180, 200, 255)\<close> otherwise, and the alpha byte is the stored \<^verbatim>\<open>alpha\<close>.
\<close>

theorem nebula_pixels_well_formed:
  assumes "x < 512" and "y < 512"
  shows "\<exists>a. nebula_alpha x y = Some a \<and> 0 \<le> a \<and> a \<le> 255 \<and>
     fst (dustTexture g k ty) ! ((y * 512 + x) * 4) = (if ty = ''dark'' then 20 else 180) \<and>
     fst (dustTexture g k ty) ! ((y * 512 + x) * 4 + 1) = (if ty = ''dark'' then 15 else 200) \<and>
     fst (dustTexture g k ty) ! ((y * 512 + x) * 4 + 2) = (if ty = ''dark'' then 10 else 255) \<and>
     fst (dustTexture g k ty) ! ((y * 512 + x) * 4 + 3) = to_uint8_clamp (Some a) \<and>
     fst (dustTexture g k ty) ! ((y * 512 + x) * 4 + 3) \<le> 255"
proof -
  obtain a where a: "nebula_alpha x y = Some a" "0 \<le> a" "a \<le> 255"
    using nebula_alpha_range by blast
  have "length (replicate (512 * 512 * 4) (0::nat)) = 512 * 512 * 4"
    by (rule length_replicate)
  from raster_fold [OF this le_refl, of ty] assms
  have "fst (dustTexture g k ty) ! ((y * 512 + x) * 4) = (if ty = ''dark'' then 20 else 180) \<and>
     fst (dustTexture g k ty) ! ((y * 512 + x) * 4 + 1) = (if ty = ''dark'' then 15 else 200) \<and>
     fst (dustTexture g k ty) ! ((y * 512 + x) * 4 + 2) = (if ty = ''dark'' then 10 else 255) \<and>
     fst (dustTexture g k ty) ! ((y * 512 + x) * 4 + 3) = to_uint8_clamp (nebula_alpha x y)"
    unfolding dustTexture_def fst_conv by blast
  with a to_uint8_clamp_le [of "Some a"] show ?thesis by auto
qed

theorem nebula_pixels_well_formed_witness:
  "(1::nat) < 512 \<and> (0::nat) < 512 \<and>
   (\<exists>a. nebula_alpha 1 0 = Some a \<and> 0 \<le> a \<and> a \<le> 255 \<and>
     fst (dustTexture zero_rng 0 ''dark'') ! 4 = 20 \<and>
     fst (dustTexture zero_rng 0 ''dark'') ! 5 = 15 \<and>
     fst (dustTexture zero_rng 0 ''dark'') ! 6 = 10 \<and>
     fst (dustTexture zero_rng 0 ''dark'') ! 7 = to_uint8_clamp (Some a))"
  using nebula_pixels_well_formed [of 1 0 zero_rng 0 "''dark''"]
  by auto

text \<open>
  C9: the raster is a function of the nebula type alone. The synthesis makes no call
  of \<^verbatim>\<open>Math.random()\<close>: whatever the random source and its position, the same type
  gives the same 512 by 512 by 4 bytes, and the position of the source is left as it
  was.
\<close>

theorem nebula_raster_deterministic:
  "fst (dustTexture g k ty) = fst (dustTexture g' k' ty) \<and>
   snd (dustTexture g k ty) = k \<and>
   length (fst (dustTexture g k ty)) = 512 * 512 * 4"
proof -
  have "length (replicate (512 * 512 * 4) (0::nat)) = 512 * 512 * 4"
    by (rule length_replicate)
  from raster_fold [OF this le_refl, of ty]
  have "length (fst (dustTexture g k ty)) = 512 * 512 * 4"
    unfolding dustTexture_def fst_conv by (simp only: length_replicate)
  moreover have "fst (dustTexture g k ty) = fst (dustTexture g' k' ty)"
    unfolding dustTexture_def fst_conv by (rule refl)
  moreover have "snd (dustTexture g k ty) = k"
    unfolding dustTexture_def snd_conv by (rule refl)
  ultimately show ?thesis by blast
qed

text \<open>
  C10: a star whose base size is at most 0.5 does not twinkle: its twinkle intensity
  is 0, its scintillation factor is 1, and the frame writes its size and its three
  colour channels back unchanged.
\<close>

theorem faint_stars_do_not_twinkle:
  assumes "ref_current sf = Some geo" and "attributes_ok sf geo" and "store_ok count sf geo h"
    and "useFrame g k time count sf h = (h', k')" and "i < count"
    and "colors_clamped sf h" and "value_of (h (sizes_ref sf) ! i) \<le> 1 / 2"
  shows "twinkleIntensity (value_of (h (sizes_ref sf) ! i)) = 0 \<and>
         scintillation time (g (k + i)) i (value_of (h (sizes_ref sf) ! i)) = 1 \<and>
         h' (size_array geo) ! i = h (sizes_ref sf) ! i \<and>
         h' (color_array geo) ! (i * 3) = h (colors_ref sf) ! (i * 3) \<and>
         h' (color_array geo) ! (i * 3 + 1) = h (colors_ref sf) ! (i * 3 + 1) \<and>
         h' (color_array geo) ! (i * 3 + 2) = h (colors_ref sf) ! (i * 3 + 2)"
proof -
  have s: "scintillation time (g (k + i)) i (value_of (h (sizes_ref sf) ! i)) = 1"
    using assms(7) by (rule scintillation_small)
  have "i * 3 < length (h (colors_ref sf))" "i * 3 + 1 < length (h (colors_ref sf))"
    "i * 3 + 2 < length (h (colors_ref sf))"
    using assms(3,5) by (simp_all add: store_ok_def)
  then have c: "value_of (h (colors_ref sf) ! (i * 3)) \<le> 1"
    "value_of (h (colors_ref sf) ! (i * 3 + 1)) \<le> 1"
    "value_of (h (colors_ref sf) ! (i * 3 + 2)) \<le> 1"
    using assms(6) unfolding colors_clamped_def by blast+
  from useFrame_result(5) [OF assms(1-5)] useFrame_result(6) [OF assms(1-5)] c
  show ?thesis
    unfolding s by (simp add: twinkleIntensity_small [OF assms(7)] Math_fround_value_of)
qed

theorem faint_stars_do_not_twinkle_witness:
  "ref_current (fst (mount example_buffers)) =
     Some \<lparr>position_array = 0, color_array = 1, size_array = 2\<rparr> \<and>
   attributes_ok (fst (mount example_buffers))
     \<lparr>position_array = 0, color_array = 1, size_array = 2\<rparr> \<and>
   store_ok 1 (fst (mount example_buffers))
     \<lparr>position_array = 0, color_array = 1, size_array = 2\<rparr> (snd (mount example_buffers)) \<and>
   value_of (snd (mount example_buffers) (sizes_ref (fst (mount example_buffers))) ! 0)
     \<le> 1 / 2 \<and>
   fst (useFrame zero_rng 9 1 1 (fst (mount example_buffers)) (snd (mount example_buffers))) 2
     ! 0 = Math_fround (3 / 100) \<and>
   fst (useFrame zero_rng 9 1 1 (fst (mount example_buffers)) (snd (mount example_buffers))) 1
     ! 0 = Math_fround (361 / 400)"
proof -
  let ?sf = "fst (mount example_buffers)" and ?h = "snd (mount example_buffers)"
  have run: "useFrame zero_rng 9 1 1 ?sf ?h =
      (fst (useFrame zero_rng 9 1 1 ?sf ?h), snd (useFrame zero_rng 9 1 1 ?sf ?h))"
    by simp
  have i: "(0::nat) < 1" by simp
  have small: "value_of (?h (sizes_ref ?sf) ! 0) \<le> 1 / 2"
    by (simp add: mount_def example_buffers_def value_of_Math_fround fround_values)
  from faint_stars_do_not_twinkle
    [OF mount_ref mount_attributes_ok mount_store_ok [OF example_buffers_ok] run i
      example_colors_clamped small]
    mount_ref [of example_buffers] mount_attributes_ok [of example_buffers]
    mount_store_ok [OF example_buffers_ok] example_colors_clamped small
  show ?thesis by (simp add: mount_def example_buffers_def)
qed

end
